theory Spec2Isabelle
  imports Main
begin

section \<open>Strings of the Go standard library used by main.go\<close>

text \<open>
  Go strings are byte sequences; they are modelled as \<open>string\<close> (a list of 8-bit
  characters). \<open>strings.TrimSpace\<close>, \<open>strings.ToLower\<close> are modelled on their ASCII
  behaviour: the six ASCII white-space bytes are trimmed and the letters \<open>A\<close>..\<open>Z\<close> are
  mapped to \<open>a\<close>..\<open>z\<close>; bytes from 0x80 on are left alone (Go decodes them as UTF-8 and
  consults the Unicode tables, which is not modelled). On strings of ASCII bytes the
  definitions below agree with the library.
\<close>

definition asciiSpace :: "char \<Rightarrow> bool" where
  "asciiSpace c = (c \<in> set [CHR 0x09, CHR 0x0A, CHR 0x0B, CHR 0x0C, CHR 0x0D, CHR 0x20])"

definition trimSpace :: "string \<Rightarrow> string" where
  "trimSpace s = rev (dropWhile asciiSpace (rev (dropWhile asciiSpace s)))"

definition toLowerChar :: "char \<Rightarrow> char" where
  "toLowerChar c =
     (let n = (of_char c :: nat) in if 65 \<le> n \<and> n \<le> 90 then char_of (n + 32) else c)"

definition toLower :: "string \<Rightarrow> string" where
  "toLower s = map toLowerChar s"

text \<open>\<open>strings.Split(s, sep)\<close> for a one-byte separator: one more piece than there are
  separators, so the empty string splits into one empty piece.\<close>

fun split :: "char \<Rightarrow> string \<Rightarrow> string list" where
  "split sep [] = [[]]"
| "split sep (c # cs) =
     (if c = sep then [] # split sep cs
      else (case split sep cs of [] \<Rightarrow> [[c]] | w # ws \<Rightarrow> (c # w) # ws))"

text \<open>\<open>strings.HasPrefix\<close>: \<open>len(s) >= len(prefix) && s[:len(prefix)] == prefix\<close>.\<close>

definition hasPrefix :: "string \<Rightarrow> string \<Rightarrow> bool" where
  "hasPrefix s p = (length p \<le> length s \<and> take (length p) s = p)"

definition trimPrefix :: "string \<Rightarrow> string \<Rightarrow> string" where
  "trimPrefix s p = (if hasPrefix s p then drop (length p) s else s)"

section \<open>Data model\<close>

record commit =
  sha :: string
  message :: string
  psBranch :: string
  isMerge :: bool

record head =
  sha :: string
  ref :: string

text \<open>The two ways the program stops early: \<open>log.Fatalf\<close> (exit status 1) and a run-time
  panic of an index expression.\<close>

datatype error = Fatal string | IndexOutOfRange

definition BRANCH_PREFIX :: string where
  "BRANCH_PREFIX = ''PR_BRANCH''"

definition tagName :: "head \<Rightarrow> string" where
  "tagName h = BRANCH_PREFIX @ ''/'' @ ref h"

definition shouldIgnoreRef :: "string \<Rightarrow> bool" where
  "shouldIgnoreRef r = (toLower r \<in> set ['''', ''null'', ''nil''])"

section \<open>Segment extraction\<close>

text \<open>\<open>xs[i]\<close> of a Go slice panics out of range.\<close>

definition index :: "'a list \<Rightarrow> nat \<Rightarrow> error + 'a" where
  "index xs i = (if i < length xs then Inr (xs ! i) else Inl IndexOutOfRange)"

text \<open>First loop of \<open>findTipsOfPrs\<close>: the positions of the commits that carry a branch tag
  or are merges.\<close>

definition stoppers :: "commit list \<Rightarrow> nat list" where
  "stoppers commits =
     filter (\<lambda>i. psBranch (commits ! i) \<noteq> [] \<or> isMerge (commits ! i)) [0 ..< length commits]"

text \<open>Second loop of \<open>findTipsOfPrs\<close>, over the stopper positions still to visit, with the
  local variables \<open>last\<close> (here \<open>lastIdx\<close>) and \<open>tips\<close>.\<close>

fun tipsLoop :: "commit list \<Rightarrow> nat list \<Rightarrow> nat \<Rightarrow> head list \<Rightarrow> error + head list" where
  "tipsLoop commits [] lastIdx tips = Inr tips"
| "tipsLoop commits (s # ss) lastIdx tips =
     (case index commits s of
        Inl e \<Rightarrow> Inl e
      | Inr cs \<Rightarrow>
          if \<not> isMerge cs \<and> psBranch cs \<noteq> [] then
            (case index commits lastIdx of
               Inl e \<Rightarrow> Inl e
             | Inr cl \<Rightarrow>
                 tipsLoop commits ss (s + 1)
                   (tips @ [\<lparr>sha = commit.sha cl, ref = psBranch cs\<rparr>]))
          else tipsLoop commits ss (s + 1) tips)"

definition findTipsOfPrs :: "commit list \<Rightarrow> error + head list" where
  "findTipsOfPrs commits =
     (if length (stoppers commits) = 0 then Inr []
      else tipsLoop commits (stoppers commits) 0 [])"

text \<open>\<open>findBranchTag\<close>: the first line of the trimmed message that starts with
  \<open>PR_BRANCH=\<close>, without that prefix; the empty string when there is none.\<close>

fun firstBranchTag :: "string list \<Rightarrow> string" where
  "firstBranchTag [] = []"
| "firstBranchTag (line # lines) =
     (if hasPrefix line (BRANCH_PREFIX @ ''='') then trimPrefix line (BRANCH_PREFIX @ ''='')
      else firstBranchTag lines)"

definition findBranchTag :: "string \<Rightarrow> string" where
  "findBranchTag msg = firstBranchTag (split CHR 0x0A (trimSpace msg))"

section \<open>The version-control backend\<close>

text \<open>
  \<open>git\<close> is an external process. It is a parameter of the model: a state \<open>'r\<close> of the
  repository, the captured standard output of a read-only command (\<open>None\<close> when
  \<open>cmd.Run()\<close> returns an error), and for a mutating command the text the child writes to
  the inherited output streams, whether \<open>cmd.Run()\<close> returned no error, and the next
  repository state. Commands are their argument vectors.
\<close>

record 'r git =
  git_read :: "string list \<Rightarrow> 'r \<Rightarrow> string option"
  git_write :: "string list \<Rightarrow> 'r \<Rightarrow> string \<times> bool \<times> 'r"

definition getParents :: "'r git \<Rightarrow> 'r \<Rightarrow> string \<Rightarrow> error + string list" where
  "getParents g r rf =
     (case git_read g [''git'', ''show'', ''--no-patch'', ''--format=%P'', rf] r of
        None \<Rightarrow> Inl (Fatal ''Error running get parents err'')
      | Some b \<Rightarrow> Inr (split CHR 0x20 (trimSpace b)))"

definition getSha :: "'r git \<Rightarrow> 'r \<Rightarrow> string \<Rightarrow> error + string" where
  "getSha g r rf =
     (case git_read g [''git'', ''show'', ''--no-patch'', ''--format=%H'', rf] r of
        None \<Rightarrow> Inl (Fatal ''Error running get sha err'')
      | Some b \<Rightarrow> Inr (trimSpace b))"

definition getMessage :: "'r git \<Rightarrow> 'r \<Rightarrow> string \<Rightarrow> error + string" where
  "getMessage g r s =
     (case git_read g [''git'', ''show'', ''--no-patch'', ''--format=%B'', s] r of
        None \<Rightarrow> Inl (Fatal ''Error running get message'')
      | Some b \<Rightarrow> Inr b)"

definition listTags :: "'r git \<Rightarrow> 'r \<Rightarrow> error + string list" where
  "listTags g r =
     (case git_read g [''git'', ''tag'', ''--list''] r of
        None \<Rightarrow> Inl (Fatal ''Error running get sha err'')
      | Some b \<Rightarrow> Inr (split CHR 0x0A (trimSpace b)))"

section \<open>Path enumeration\<close>

text \<open>\<open>makeCommit\<close> reads the message, then the parents; the \<open>message\<close> field stays empty.\<close>

definition makeCommit :: "'r git \<Rightarrow> 'r \<Rightarrow> string \<Rightarrow> error + commit" where
  "makeCommit g r s =
     (case getMessage g r s of
        Inl e \<Rightarrow> Inl e
      | Inr msg \<Rightarrow>
          (case getParents g r s of
             Inl e \<Rightarrow> Inl e
           | Inr ps \<Rightarrow>
               Inr \<lparr>commit.sha = s, message = [], psBranch = findBranchTag msg,
                    isMerge = (1 < length ps)\<rparr>))"

text \<open>
  \<open>traversePaths\<close> recurses along parent links and the backend need not describe a finite
  acyclic history, so the recursion depth is bounded by fuel: \<open>None\<close> is "the fuel ran
  out". The state is the pair of \<open>*path\<close> and \<open>*paths\<close>; \<open>traverseParents\<close> is the loop
  over \<open>parents\<close>.
\<close>

function traversePaths ::
    "nat \<Rightarrow> 'r git \<Rightarrow> 'r \<Rightarrow> string \<Rightarrow> string \<Rightarrow> commit list \<times> commit list list
       \<Rightarrow> (error + commit list \<times> commit list list) option"
  and traverseParents ::
    "nat \<Rightarrow> 'r git \<Rightarrow> 'r \<Rightarrow> string list \<Rightarrow> string \<Rightarrow> commit list \<times> commit list list
       \<Rightarrow> (error + commit list \<times> commit list list) option"
where
  "traversePaths 0 g r source target st = None"
| "traversePaths (Suc n) g r source target st =
     (if source = target then Some (Inr (fst st, snd st @ [fst st]))
      else
        (case getParents g r source of
           Inl e \<Rightarrow> Some (Inl e)
         | Inr parents \<Rightarrow>
             (case makeCommit g r source of
                Inl e \<Rightarrow> Some (Inl e)
              | Inr c \<Rightarrow>
                  (case traverseParents n g r parents target (fst st @ [c], snd st) of
                     None \<Rightarrow> None
                   | Some (Inl e) \<Rightarrow> Some (Inl e)
                   | Some (Inr st') \<Rightarrow> Some (Inr (butlast (fst st'), snd st'))))))"
| "traverseParents n g r [] target st = Some (Inr st)"
| "traverseParents n g r (p # ps) target st =
     (case traversePaths n g r p target st of
        None \<Rightarrow> None
      | Some (Inl e) \<Rightarrow> Some (Inl e)
      | Some (Inr st') \<Rightarrow> traverseParents n g r ps target st')"
  by pat_completeness auto

termination
  by (relation "measures
        [\<lambda>x. case x of Inl (n, _) \<Rightarrow> n | Inr (n, _) \<Rightarrow> n,
         \<lambda>x. case x of Inl _ \<Rightarrow> 0 | Inr (_, _, _, ps, _) \<Rightarrow> Suc (length ps)]") auto

definition findCommitPaths ::
    "nat \<Rightarrow> 'r git \<Rightarrow> 'r \<Rightarrow> string \<Rightarrow> (error + commit list list) option" where
  "findCommitPaths n g r branch =
     (case getSha g r ''HEAD'' of
        Inl e \<Rightarrow> Some (Inl e)
      | Inr source \<Rightarrow>
          (case getSha g r branch of
             Inl e \<Rightarrow> Some (Inl e)
           | Inr target \<Rightarrow>
               (case traversePaths n g r source target ([], []) of
                  None \<Rightarrow> None
                | Some (Inl e) \<Rightarrow> Some (Inl e)
                | Some (Inr st) \<Rightarrow> Some (Inr (snd st)))))"

section \<open>Publishing and reaping\<close>

text \<open>
  What reaches the terminal from the mutating phase: the command line that
  \<open>fmt.Println(cmd)\<close> prints before the command runs, and whatever the child writes to the
  standard output and error it inherits. The value \<open>cmd.Run()\<close> returns is discarded.
\<close>

datatype console_item = Echo "string list" | Forwarded string

record 'r world =
  repo :: 'r
  console :: "console_item list"

definition run :: "'r git \<Rightarrow> string list \<Rightarrow> 'r world \<Rightarrow> 'r world" where
  "run g argv w =
     (case git_write g argv (repo w) of
        (txt, ok, r') \<Rightarrow> \<lparr>repo = r', console = console w @ [Echo argv, Forwarded txt]\<rparr>)"

definition pushCmd :: "head \<Rightarrow> string list" where
  "pushCmd h = [''git'', ''push'', ''--force'', ''origin'', head.sha h @ '':refs/heads/'' @ ref h]"

definition tagCmd :: "head \<Rightarrow> string list" where
  "tagCmd h = [''git'', ''tag'', ''--force'', tagName h, head.sha h]"

definition deleteCmd :: "string \<Rightarrow> string list" where
  "deleteCmd t = [''git'', ''tag'', ''--delete'', t]"

definition pushBranch :: "'r git \<Rightarrow> head \<Rightarrow> 'r world \<Rightarrow> 'r world" where
  "pushBranch g h w = run g (pushCmd h) w"

definition tagBranch :: "'r git \<Rightarrow> head \<Rightarrow> 'r world \<Rightarrow> 'r world" where
  "tagBranch g h w = run g (tagCmd h) w"

definition deleteTag :: "'r git \<Rightarrow> string \<Rightarrow> 'r world \<Rightarrow> 'r world" where
  "deleteTag g t w = run g (deleteCmd t) w"

text \<open>\<open>dfsPushes\<close>: the package variable \<open>pushed\<close> is the first component of the state, the
  second is whatever the callback \<open>f\<close> works on.\<close>

fun dfsPushes :: "head list \<Rightarrow> (head \<Rightarrow> 's \<Rightarrow> 's) \<Rightarrow> string set \<times> 's \<Rightarrow> string set \<times> 's" where
  "dfsPushes [] f st = st"
| "dfsPushes (h # hs) f st =
     (if shouldIgnoreRef (ref h) \<or> head.sha h \<in> fst st then dfsPushes hs f st
      else dfsPushes hs f (insert (head.sha h) (fst st), f h (snd st)))"

text \<open>\<open>tagBranches\<close>: the callback tags the head and appends its tag name to the local
  \<open>tags\<close>, which is returned.\<close>

definition tagBranches ::
    "'r git \<Rightarrow> head list \<Rightarrow> string set \<times> 'r world \<Rightarrow> string list \<times> string set \<times> 'r world" where
  "tagBranches g heads st =
     (case dfsPushes heads (\<lambda>h ws. (tagBranch g h (fst ws), snd ws @ [tagName h]))
             (fst st, (snd st, []))
      of (pu, (w, tags)) \<Rightarrow> (tags, pu, w))"

definition pushBranches :: "'r git \<Rightarrow> head list \<Rightarrow> string set \<times> 'r world \<Rightarrow> string set \<times> 'r world" where
  "pushBranches g heads st = dfsPushes heads (pushBranch g) st"

text \<open>The loop of \<open>removeStaleTags\<close> over the listed tags, \<open>m\<close> being the set of active
  names.\<close>

fun reapLoop :: "'r git \<Rightarrow> string set \<Rightarrow> string list \<Rightarrow> 'r world \<Rightarrow> 'r world" where
  "reapLoop g m [] w = w"
| "reapLoop g m (t # ts) w =
     (if \<not> hasPrefix t BRANCH_PREFIX then reapLoop g m ts w
      else if t \<in> m then reapLoop g m ts w
      else reapLoop g m ts (deleteTag g t w))"

definition removeStaleTags :: "'r git \<Rightarrow> string list \<Rightarrow> 'r world \<Rightarrow> error + 'r world" where
  "removeStaleTags g active w =
     (case listTags g (repo w) of
        Inl e \<Rightarrow> Inl e
      | Inr tags \<Rightarrow> Inr (reapLoop g (set active) tags w))"

section \<open>The run\<close>

text \<open>The loop of \<open>main\<close> over the paths; the state is \<open>active\<close>, \<open>pushed\<close> and the world.\<close>

fun mainLoop ::
    "'r git \<Rightarrow> bool \<Rightarrow> commit list list \<Rightarrow> string list \<times> string set \<times> 'r world
       \<Rightarrow> error option \<times> string list \<times> string set \<times> 'r world" where
  "mainLoop g dry [] st = (None, st)"
| "mainLoop g dry (p # ps) st =
     (case findTipsOfPrs p of
        Inl e \<Rightarrow> (Some e, st)
      | Inr t \<Rightarrow>
          if dry then
            (case tagBranches g t (snd st) of
               (tags, st') \<Rightarrow> mainLoop g dry ps (fst st @ tags, st'))
          else mainLoop g dry ps (fst st, pushBranches g t (snd st)))"

text \<open>
  \<open>main\<close> on a repository state, with the value of the \<open>--dry\<close> flag: how the process
  ended (\<open>None\<close> is exit status 0) and the world it leaves. \<open>pushed\<close> starts empty and the
  terminal starts blank. The outer \<open>option\<close> is the fuel of the path enumeration.
\<close>

definition main :: "nat \<Rightarrow> 'r git \<Rightarrow> bool \<Rightarrow> 'r \<Rightarrow> (error option \<times> 'r world) option" where
  "main n g dry r =
     (case findCommitPaths n g r ''main'' of
        None \<Rightarrow> None
      | Some (Inl e) \<Rightarrow> Some (Some e, \<lparr>repo = r, console = []\<rparr>)
      | Some (Inr paths) \<Rightarrow>
          (case mainLoop g dry paths ([], {}, \<lparr>repo = r, console = []\<rparr>) of
             (Some e, active, pu, w) \<Rightarrow> Some (Some e, w)
           | (None, active, pu, w) \<Rightarrow>
               (case removeStaleTags g active w of
                  Inl e \<Rightarrow> Some (Some e, w)
                | Inr w' \<Rightarrow> Some (None, w'))))"

section \<open>Notions used to state the properties\<close>

text \<open>A stopper is a commit that ends a window: it carries a branch tag or is a merge.\<close>

definition stopper :: "commit \<Rightarrow> bool" where
  "stopper c = (psBranch c \<noteq> [] \<or> isMerge c)"

text \<open>
  The segment extraction as one pass over the path, carrying the identity of the first
  commit of the open window (\<open>None\<close> right after a stopper). \<open>findTipsOfPrs\<close> is shown
  below to compute exactly this.
\<close>

fun windows :: "string option \<Rightarrow> commit list \<Rightarrow> head list" where
  "windows w [] = []"
| "windows w (c # cs) =
     (let start = (case w of None \<Rightarrow> commit.sha c | Some s \<Rightarrow> s) in
      if isMerge c then windows None cs
      else if psBranch c \<noteq> [] then \<lparr>head.sha = start, ref = psBranch c\<rparr> # windows None cs
      else windows (Some start) cs)"

text \<open>The heads of a path, and of all paths of a run in the order \<open>main\<close> visits them.\<close>

definition tipsOf :: "commit list \<Rightarrow> head list" where
  "tipsOf p = (case findTipsOfPrs p of Inl e \<Rightarrow> [] | Inr t \<Rightarrow> t)"

definition allTips :: "commit list list \<Rightarrow> head list" where
  "allTips paths = concat (map tipsOf paths)"

text \<open>The heads the callback of \<open>dfsPushes\<close> is called on, in order: the run of
  \<open>dfsPushes\<close> itself with a callback that records its argument.\<close>

definition published :: "string set \<Rightarrow> head list \<Rightarrow> head list" where
  "published pu hs = snd (dfsPushes hs (\<lambda>h acc. acc @ [h]) (pu, []))"

definition publishCmd :: "bool \<Rightarrow> head \<Rightarrow> string list" where
  "publishCmd dry h = (if dry then tagCmd h else pushCmd h)"

definition publish :: "'r git \<Rightarrow> bool \<Rightarrow> head \<Rightarrow> 'r world \<Rightarrow> 'r world" where
  "publish g dry = (if dry then tagBranch g else pushBranch g)"

text \<open>
  What a list of commands does when each is sent to the backend once, in order: the
  repository state after the last one, and what reaches the terminal (the command line,
  then what the child wrote). Both are stated on \<open>git_write\<close> alone.
\<close>

fun backendAfter :: "'r git \<Rightarrow> string list list \<Rightarrow> 'r \<Rightarrow> 'r" where
  "backendAfter g [] r = r"
| "backendAfter g (c # cs) r = backendAfter g cs (snd (snd (git_write g c r)))"

fun transcript :: "'r git \<Rightarrow> string list list \<Rightarrow> 'r \<Rightarrow> console_item list" where
  "transcript g [] r = []"
| "transcript g (c # cs) r =
     Echo c # Forwarded (fst (git_write g c r)) # transcript g cs (snd (snd (git_write g c r)))"

text \<open>
  A list of commit identities is an ancestry path from \<open>source\<close> to \<open>target\<close>: empty when
  the two are the same commit, and otherwise it starts with \<open>source\<close> itself and goes on
  from one of the parents of \<open>source\<close>.
\<close>

fun pathFrom :: "'r git \<Rightarrow> 'r \<Rightarrow> string \<Rightarrow> string \<Rightarrow> string list \<Rightarrow> bool" where
  "pathFrom g r source target [] = (source = target)"
| "pathFrom g r source target (s # ss) =
     (source \<noteq> target \<and> s = source \<and>
      (case getParents g r source of
         Inl e \<Rightarrow> False
       | Inr ps \<Rightarrow> list_ex (\<lambda>p. pathFrom g r p target ss) ps))"

text \<open>A path of commit records along an ancestry path, each record being what
  \<open>makeCommit\<close> builds for its identity.\<close>

definition commitPath :: "'r git \<Rightarrow> 'r \<Rightarrow> string \<Rightarrow> string \<Rightarrow> commit list \<Rightarrow> bool" where
  "commitPath g r source target p =
     (pathFrom g r source target (map commit.sha p) \<and>
      list_all (\<lambda>c. makeCommit g r (commit.sha c) = Inr c) p)"

text \<open>
  \<open>descends g r target s via x\<close>: from \<open>s\<close> one gets to \<open>x\<close> by following parent links
  through the commits \<open>via\<close>, none of the commits on the way, \<open>x\<close> included, being the
  target. These are the commits whose parents and message the traversal from \<open>s\<close> reads.
\<close>

fun descends :: "'r git \<Rightarrow> 'r \<Rightarrow> string \<Rightarrow> string \<Rightarrow> string list \<Rightarrow> string \<Rightarrow> bool" where
  "descends g r target s [] x = (s = x \<and> s \<noteq> target)"
| "descends g r target s (p # ps) x =
     (s \<noteq> target \<and>
      (case getParents g r s of
         Inl e \<Rightarrow> False
       | Inr qs \<Rightarrow> p \<in> set qs \<and> descends g r target p ps x))"

text \<open>
  \<open>shallow d g r target s\<close>: following parent links from \<open>s\<close>, every way reaches the
  target or a commit whose parents cannot be read within \<open>d\<close> steps. Then fuel \<open>Suc d\<close>
  is enough for the traversal from \<open>s\<close>.
\<close>

fun shallow :: "nat \<Rightarrow> 'r git \<Rightarrow> 'r \<Rightarrow> string \<Rightarrow> string \<Rightarrow> bool" where
  "shallow 0 g r target s = (s = target)"
| "shallow (Suc d) g r target s =
     (s = target \<or>
      (case getParents g r s of
         Inl e \<Rightarrow> True
       | Inr ps \<Rightarrow> list_all (shallow d g r target) ps))"



text \<open>The same backend, except that every mutating command reports the status \<open>ok\<close>
  chooses.\<close>

definition overrideStatus :: "(string list \<Rightarrow> 'r \<Rightarrow> bool) \<Rightarrow> 'r git \<Rightarrow> 'r git" where
  "overrideStatus ok g =
     g\<lparr>git_write := \<lambda>argv s. (case git_write g argv s of (t, b, s') \<Rightarrow> (t, ok argv s, s'))\<rparr>"

section \<open>A small repository to run the program on\<close>

text \<open>
  An in-memory backend for concrete runs: commits with their parents and messages, named
  refs, and the list of tags. With \<open>works = False\<close> every mutating command fails and
  writes nothing.
\<close>

record mem_repo =
  repo_commits :: "(string \<times> string list \<times> string) list"
  repo_refs :: "(string \<times> string) list"
  repo_tags :: "string list"

fun unwords :: "string list \<Rightarrow> string" where
  "unwords [] = []"
| "unwords [x] = x"
| "unwords (x # y # ys) = x @ '' '' @ unwords (y # ys)"

definition mem_read :: "string list \<Rightarrow> mem_repo \<Rightarrow> string option" where
  "mem_read argv r =
     (if argv = [''git'', ''tag'', ''--list''] then
        Some (concat (map (\<lambda>t. t @ [CHR 0x0A]) (repo_tags r)))
      else if length argv = 5 \<and> take 3 argv = [''git'', ''show'', ''--no-patch''] then
        (let s = (case map_of (repo_refs r) (argv ! 4) of None \<Rightarrow> argv ! 4 | Some x \<Rightarrow> x) in
         case map_of (repo_commits r) s of
           None \<Rightarrow> None
         | Some (ps, msg) \<Rightarrow>
             if argv ! 3 = ''--format=%P'' then Some (unwords ps @ [CHR 0x0A])
             else if argv ! 3 = ''--format=%H'' then Some (s @ [CHR 0x0A])
             else if argv ! 3 = ''--format=%B'' then Some (msg @ [CHR 0x0A])
             else None)
      else None)"

definition mem_write :: "bool \<Rightarrow> string list \<Rightarrow> mem_repo \<Rightarrow> string \<times> bool \<times> mem_repo" where
  "mem_write works argv r =
     (if \<not> works then ([], False, r)
      else if length argv = 5 \<and> take 3 argv = [''git'', ''tag'', ''--force''] then
        ([], True, r\<lparr>repo_tags := List.insert (argv ! 3) (repo_tags r)\<rparr>)
      else if length argv = 4 \<and> take 3 argv = [''git'', ''tag'', ''--delete''] then
        (if argv ! 3 \<in> set (repo_tags r) then
           (''Deleted tag'', True, r\<lparr>repo_tags := removeAll (argv ! 3) (repo_tags r)\<rparr>)
         else (''error: tag not found'', False, r))
      else ([], True, r))"

definition mem_git :: "bool \<Rightarrow> mem_repo git" where
  "mem_git works = \<lparr>git_read = mem_read, git_write = mem_write works\<rparr>"

text \<open>Two commits on top of \<open>main\<close>, the upper one marked \<open>PR_BRANCH=feat\<close>, and two tags.\<close>

definition stack_repo :: mem_repo where
  "stack_repo =
     \<lparr>repo_commits = [(''c2'', [''c1''], ''second\<newline>\<newline>PR_BRANCH=feat''),
                 (''c1'', [''c0''], ''first''),
                 (''c0'', [], ''base'')],
      repo_refs = [(''HEAD'', ''c2''), (''main'', ''c0'')],
      repo_tags = [''PR_BRANCH/old'', ''v1.0'']\<rparr>"

text \<open>
  A history with a merge: \<open>t\<close> (marked \<open>top\<close>) on a merge \<open>m\<close> of \<open>a\<close> (marked \<open>left\<close>)
  and \<open>b\<close> (marked \<open>right\<close>), both on \<open>main\<close>. There are two paths from \<open>HEAD\<close> to
  \<open>main\<close>, and \<open>t\<close> is on both.
\<close>

definition diamond_repo :: mem_repo where
  "diamond_repo =
     \<lparr>repo_commits = [(''t'', [''m''], ''PR_BRANCH=top''),
                      (''m'', [''a'', ''b''], ''merge''),
                      (''a'', [''c0''], ''PR_BRANCH=left''),
                      (''b'', [''c0''], ''PR_BRANCH=right''),
                      (''c0'', [], ''base'')],
      repo_refs = [(''HEAD'', ''t''), (''main'', ''c0'')],
      repo_tags = [''PR_BRANCHES'', ''PR_BRANCH/left'', ''v1.0'']\<rparr>"

text \<open>The two paths of that history, as \<open>findCommitPaths\<close> returns them.\<close>

definition diamond_paths :: "commit list list" where
  "diamond_paths =
     [[\<lparr>commit.sha = ''t'', message = [], psBranch = ''top'', isMerge = False\<rparr>,
       \<lparr>commit.sha = ''m'', message = [], psBranch = [], isMerge = True\<rparr>,
       \<lparr>commit.sha = ''a'', message = [], psBranch = ''left'', isMerge = False\<rparr>],
      [\<lparr>commit.sha = ''t'', message = [], psBranch = ''top'', isMerge = False\<rparr>,
       \<lparr>commit.sha = ''m'', message = [], psBranch = [], isMerge = True\<rparr>,
       \<lparr>commit.sha = ''b'', message = [], psBranch = ''right'', isMerge = False\<rparr>]]"

text \<open>The path of the first history, and the world after its one push in a live run.\<close>

definition stack_paths :: "commit list list" where
  "stack_paths =
     [[\<lparr>commit.sha = ''c2'', message = [], psBranch = ''feat'', isMerge = False\<rparr>,
       \<lparr>commit.sha = ''c1'', message = [], psBranch = [], isMerge = False\<rparr>]]"

definition stack_pushed :: "mem_repo world" where
  "stack_pushed =
     \<lparr>repo = stack_repo,
      console = [Echo [''git'', ''push'', ''--force'', ''origin'', ''c2:refs/heads/feat''],
                 Forwarded []]\<rparr>"

text \<open>A repository in which neither \<open>HEAD\<close> nor \<open>main\<close> resolves.\<close>

definition unborn_repo :: mem_repo where
  "unborn_repo = \<lparr>repo_commits = [], repo_refs = [], repo_tags = [''PR_BRANCH/old'']\<rparr>"

text \<open>A repository in which the parent \<open>c1\<close> of \<open>HEAD\<close> cannot be read.\<close>

definition dangling_repo :: mem_repo where
  "dangling_repo =
     \<lparr>repo_commits = [(''c2'', [''c1''], ''second''), (''c0'', [], ''base'')],
      repo_refs = [(''HEAD'', ''c2''), (''main'', ''c0'')],
      repo_tags = [''PR_BRANCH/old'']\<rparr>"

section \<open>Segment extraction: properties\<close>

lemma upt_shift_Cons: "[n ..< n + Suc k] = n # [Suc n ..< Suc n + k]"
  by (subst upt_rec) simp

lemma tipsLoop_windows:
  "lastIdx \<le> length pre \<Longrightarrow>
   tipsLoop (pre @ suf)
      (filter (\<lambda>i. stopper ((pre @ suf) ! i)) [length pre ..< length pre + length suf])
      lastIdx tips
   = Inr (tips @ windows (if lastIdx = length pre then None
                          else Some (commit.sha ((pre @ suf) ! lastIdx))) suf)"
proof (induction suf arbitrary: pre lastIdx tips)
  case Nil
  then show ?case by simp
next
  case (Cons c cs)
  have upt: "[length pre ..< length pre + length (c # cs)] =
             length pre # [length (pre @ [c]) ..< length (pre @ [c]) + length cs]"
    using upt_shift_Cons[of "length pre" "length cs"] by simp
  have app: "pre @ c # cs = (pre @ [c]) @ cs" by simp
  have at: "(pre @ c # cs) ! length pre = c" by simp
  have lt: "lastIdx < length (pre @ c # cs)" using Cons.prems by simp
  show ?case
  proof (cases "stopper c")
    case True
    have IH: "tipsLoop ((pre @ [c]) @ cs)
      (filter (\<lambda>i. stopper (((pre @ [c]) @ cs) ! i))
         [length (pre @ [c]) ..< length (pre @ [c]) + length cs])
      (length (pre @ [c])) tips'
      = Inr (tips' @ windows None cs)" for tips'
      using Cons.IH[of "length (pre @ [c])" "pre @ [c]" tips'] by simp
    show ?thesis
      unfolding upt
      using True IH lt Cons.prems
      apply (simp only: app[symmetric] filter.simps at if_True tipsLoop.simps index_def)
      apply (auto simp: stopper_def Let_def nth_append)
      done
  next
    case False
    have IH: "tipsLoop ((pre @ [c]) @ cs)
      (filter (\<lambda>i. stopper (((pre @ [c]) @ cs) ! i))
         [length (pre @ [c]) ..< length (pre @ [c]) + length cs])
      lastIdx tips
      = Inr (tips @ windows (if lastIdx = length (pre @ [c]) then None
                             else Some (commit.sha (((pre @ [c]) @ cs) ! lastIdx))) cs)"
      using Cons.IH[of lastIdx "pre @ [c]" tips] Cons.prems by simp
    show ?thesis
      unfolding upt
      using False IH lt Cons.prems
      apply (simp only: app[symmetric] filter.simps at if_False)
      apply (auto simp: stopper_def Let_def nth_append)
      done
  qed
qed

text \<open>\<open>findTipsOfPrs\<close> never panics, and its result is the one-pass extraction.\<close>

lemma findTipsOfPrs_windows: "findTipsOfPrs commits = Inr (windows None commits)"
proof -
  have s: "stoppers commits =
           filter (\<lambda>i. stopper (([] @ commits) ! i))
             [length ([]::commit list) ..< length ([]::commit list) + length commits]"
    by (simp add: stoppers_def stopper_def)
  have "tipsLoop commits (stoppers commits) 0 [] = Inr (windows None commits)"
    using tipsLoop_windows[of 0 "[]" commits "[]"] unfolding s by simp
  moreover have "stoppers commits = [] \<Longrightarrow> windows None commits = []"
    using calculation by simp
  ultimately show ?thesis by (auto simp: findTipsOfPrs_def)
qed


lemma windows_merge_boundary:
  "isMerge m \<Longrightarrow> windows w (xs @ m # ys) = windows w xs @ windows None ys"
  by (induction xs arbitrary: w) (auto simp: Let_def)

text \<open>
  C5. For the path \<open>[c1 (tag A), c2, c3 (tag B)]\<close>, \<open>c1\<close> nearest the source and no commit a
  merge, tip extraction yields exactly \<open>[{tip c1, ref A}, {tip c2, ref B}]\<close>: the tip of
  \<open>B\<close> is \<open>c2\<close>, the first commit of the window that \<open>c3\<close> closes, not \<open>c3\<close>.
\<close>

theorem tips_of_linear_chain:
  assumes "A \<noteq> []" and "B \<noteq> []"
  shows "findTipsOfPrs
           [\<lparr>commit.sha = c1, message = m1, psBranch = A, isMerge = False\<rparr>,
            \<lparr>commit.sha = c2, message = m2, psBranch = [], isMerge = False\<rparr>,
            \<lparr>commit.sha = c3, message = m3, psBranch = B, isMerge = False\<rparr>]
         = Inr [\<lparr>head.sha = c1, ref = A\<rparr>, \<lparr>head.sha = c2, ref = B\<rparr>]"
  using assms by (simp add: findTipsOfPrs_def stoppers_def index_def)

theorem tips_of_linear_chain_witness:
  "''A'' \<noteq> [] \<and> ''B'' \<noteq> [] \<and>
   findTipsOfPrs
     [\<lparr>commit.sha = ''c1'', message = [], psBranch = ''A'', isMerge = False\<rparr>,
      \<lparr>commit.sha = ''c2'', message = [], psBranch = [], isMerge = False\<rparr>,
      \<lparr>commit.sha = ''c3'', message = [], psBranch = ''B'', isMerge = False\<rparr>]
   = Inr [\<lparr>head.sha = ''c1'', ref = ''A''\<rparr>, \<lparr>head.sha = ''c2'', ref = ''B''\<rparr>]"
  using tips_of_linear_chain[of "''A''" "''B''" "''c1''" "[]" "''c2''" "[]" "''c3''" "[]"]
  by simp

text \<open>
  C6. A merge commit without a branch tag is a silent segment boundary: the path
  \<open>[c1 (tag A), c2 (merge), c3 (tag B)]\<close> yields exactly
  \<open>[{tip c1, ref A}, {tip c3, ref B}]\<close>; \<open>c2\<close> is no tip and is not part of the window
  of \<open>B\<close>.
\<close>

theorem tips_across_untagged_merge:
  assumes "A \<noteq> []" and "B \<noteq> []"
  shows "findTipsOfPrs
           [\<lparr>commit.sha = c1, message = m1, psBranch = A, isMerge = False\<rparr>,
            \<lparr>commit.sha = c2, message = m2, psBranch = [], isMerge = True\<rparr>,
            \<lparr>commit.sha = c3, message = m3, psBranch = B, isMerge = False\<rparr>]
         = Inr [\<lparr>head.sha = c1, ref = A\<rparr>, \<lparr>head.sha = c3, ref = B\<rparr>]"
  using assms by (simp add: findTipsOfPrs_def stoppers_def index_def)

theorem tips_across_untagged_merge_witness:
  "''A'' \<noteq> [] \<and> ''B'' \<noteq> [] \<and>
   findTipsOfPrs
     [\<lparr>commit.sha = ''c1'', message = [], psBranch = ''A'', isMerge = False\<rparr>,
      \<lparr>commit.sha = ''c2'', message = [], psBranch = [], isMerge = True\<rparr>,
      \<lparr>commit.sha = ''c3'', message = [], psBranch = ''B'', isMerge = False\<rparr>]
   = Inr [\<lparr>head.sha = ''c1'', ref = ''A''\<rparr>, \<lparr>head.sha = ''c3'', ref = ''B''\<rparr>]"
  using tips_across_untagged_merge[of "''A''" "''B''" "''c1''" "[]" "''c2''" "[]" "''c3''" "[]"]
  by simp

text \<open>
  C7. A merge commit never produces a head, whether or not it carries a branch tag, and it
  still ends the current window: the heads of a path through a merge commit \<open>m\<close> are the
  heads of the part before \<open>m\<close> followed by the heads of the part after \<open>m\<close>, each
  extracted on its own, and erasing the tag of \<open>m\<close> changes nothing.
\<close>

theorem merge_commit_produces_no_head:
  assumes "isMerge m"
  shows "(\<exists>t1 t2. findTipsOfPrs xs = Inr t1 \<and> findTipsOfPrs ys = Inr t2 \<and>
                  findTipsOfPrs (xs @ m # ys) = Inr (t1 @ t2)) \<and>
         findTipsOfPrs (xs @ m\<lparr>psBranch := []\<rparr> # ys) = findTipsOfPrs (xs @ m # ys)"
  using assms by (simp add: findTipsOfPrs_windows windows_merge_boundary)

theorem merge_commit_produces_no_head_witness:
  "isMerge \<lparr>commit.sha = ''c2'', message = [], psBranch = ''M'', isMerge = True\<rparr> \<and>
   findTipsOfPrs
     [\<lparr>commit.sha = ''c1'', message = [], psBranch = ''A'', isMerge = False\<rparr>,
      \<lparr>commit.sha = ''c2'', message = [], psBranch = ''M'', isMerge = True\<rparr>,
      \<lparr>commit.sha = ''c3'', message = [], psBranch = ''B'', isMerge = False\<rparr>]
   = Inr [\<lparr>head.sha = ''c1'', ref = ''A''\<rparr>, \<lparr>head.sha = ''c3'', ref = ''B''\<rparr>]"
  using merge_commit_produces_no_head
    [of "\<lparr>commit.sha = ''c2'', message = [], psBranch = ''M'', isMerge = True\<rparr>"
        "[\<lparr>commit.sha = ''c1'', message = [], psBranch = ''A'', isMerge = False\<rparr>]"
        "[\<lparr>commit.sha = ''c3'', message = [], psBranch = ''B'', isMerge = False\<rparr>]"]
  by (simp add: findTipsOfPrs_def stoppers_def index_def)

section \<open>The publisher: properties\<close>

lemma dfsPushes_record_acc:
  "snd (dfsPushes hs (\<lambda>h acc. acc @ [h]) (pu, acc)) =
   acc @ snd (dfsPushes hs (\<lambda>h acc. acc @ [h]) (pu, []))"
proof (induction hs arbitrary: pu acc)
  case Nil
  then show ?case by simp
next
  case (Cons h hs)
  show ?case
  proof (cases "shouldIgnoreRef (ref h) \<or> head.sha h \<in> pu")
    case True
    then show ?thesis using Cons.IH[of pu acc] by auto
  next
    case False
    then show ?thesis
      using Cons.IH[of "insert (head.sha h) pu" "acc @ [h]"]
            Cons.IH[of "insert (head.sha h) pu" "[h]"] by simp
  qed
qed

lemma published_Nil: "published pu [] = []"
  by (simp add: published_def)

lemma published_Cons:
  "published pu (h # hs) =
     (if shouldIgnoreRef (ref h) \<or> head.sha h \<in> pu then published pu hs
      else h # published (insert (head.sha h) pu) hs)"
  using dfsPushes_record_acc[of hs "insert (head.sha h) pu" "[h]"]
  by (simp add: published_def)

text \<open>Whatever the callback, \<open>dfsPushes\<close> calls it on the heads of \<open>published\<close>, in
  order, and adds their identities to \<open>pushed\<close>.\<close>

lemma dfsPushes_published:
  "dfsPushes hs f (pu, a) =
     (pu \<union> head.sha ` set (published pu hs), fold f (published pu hs) a)"
  by (induction hs arbitrary: pu a) (auto simp: published_Cons published_Nil)

lemma published_append:
  "published pu (xs @ ys) =
     published pu xs @ published (pu \<union> head.sha ` set (published pu xs)) ys"
  by (induction xs arbitrary: pu) (auto simp: published_Cons published_Nil)

lemma published_fresh:
  "h \<in> set (published pu hs) \<Longrightarrow>
     head.sha h \<notin> pu \<and> \<not> shouldIgnoreRef (ref h) \<and> h \<in> set hs"
  by (induction hs arbitrary: pu) (auto simp: published_Cons published_Nil split: if_splits)

lemma published_distinct: "distinct (map head.sha (published pu hs))"
proof (induction hs arbitrary: pu)
  case Nil
  then show ?case by (simp add: published_Nil)
next
  case (Cons h hs)
  have "head.sha h \<notin> head.sha ` set (published (insert (head.sha h) pu) hs)"
  proof
    assume "head.sha h \<in> head.sha ` set (published (insert (head.sha h) pu) hs)"
    then obtain x where x: "x \<in> set (published (insert (head.sha h) pu) hs)"
        "head.sha x = head.sha h"
      by auto
    from published_fresh[OF x(1)] x(2) show False by simp
  qed
  then show ?case using Cons.IH by (simp add: published_Cons)
qed

lemma published_skip:
  "head.sha h \<in> pu \<or> shouldIgnoreRef (ref h) \<Longrightarrow>
     published pu (xs @ h # ys) = published pu (xs @ ys)"
  by (induction xs arbitrary: pu) (auto simp: published_Cons)

lemma dfsPushes_cong_published:
  "published pu hs = published pu hs' \<Longrightarrow> dfsPushes hs f (pu, a) = dfsPushes hs' f (pu, a)"
  by (simp add: dfsPushes_published)

lemma fold_tag_callback:
  "fold (\<lambda>h ws. (tagBranch g h (fst ws), snd ws @ [tagName h])) hs (w, acc) =
     (fold (tagBranch g) hs w, acc @ map tagName hs)"
  by (induction hs arbitrary: w acc) auto

lemma tagBranches_published:
  "tagBranches g heads (pu, w) =
     (map tagName (published pu heads), pu \<union> head.sha ` set (published pu heads),
      fold (tagBranch g) (published pu heads) w)"
  by (simp add: tagBranches_def dfsPushes_published fold_tag_callback)

lemma pushBranches_published:
  "pushBranches g heads (pu, w) =
     (pu \<union> head.sha ` set (published pu heads), fold (pushBranch g) (published pu heads) w)"
  by (simp add: pushBranches_def dfsPushes_published)

lemma mainLoop_published:
  "mainLoop g dry paths (act, pu, w) =
     (None,
      act @ (if dry then map tagName (published pu (allTips paths)) else []),
      pu \<union> head.sha ` set (published pu (allTips paths)),
      fold (publish g dry) (published pu (allTips paths)) w)"
proof (induction paths arbitrary: act pu w)
  case Nil
  then show ?case by (simp add: allTips_def published_Nil)
next
  case (Cons p ps)
  have t: "findTipsOfPrs p = Inr (tipsOf p)"
    by (simp add: tipsOf_def findTipsOfPrs_windows)
  have a: "allTips (p # ps) = tipsOf p @ allTips ps" by (simp add: allTips_def)
  show ?case
  proof (cases dry)
    case True
    then show ?thesis
      using Cons.IH[of "act @ map tagName (published pu (tipsOf p))"
                       "pu \<union> head.sha ` set (published pu (tipsOf p))"
                       "fold (tagBranch g) (published pu (tipsOf p)) w"]
      by (simp add: t a tagBranches_published published_append publish_def Un_assoc image_Un)
  next
    case False
    then show ?thesis
      using Cons.IH[of act
                       "pu \<union> head.sha ` set (published pu (tipsOf p))"
                       "fold (pushBranch g) (published pu (tipsOf p)) w"]
      by (simp add: t a pushBranches_published published_append publish_def Un_assoc image_Un)
  qed
qed

lemma main_after_loop:
  assumes "findCommitPaths n g r ''main'' = Some (Inr paths)"
      and "mainLoop g dry paths ([], {}, \<lparr>repo = r, console = []\<rparr>) = (e, active, pu, w)"
  shows "e = None"
    and "main n g dry r =
           (case removeStaleTags g active w of
              Inl e \<Rightarrow> Some (Some e, w)
            | Inr w' \<Rightarrow> Some (None, w'))"
proof -
  show e: "e = None" using assms(2) by (simp add: mainLoop_published)
  show "main n g dry r =
           (case removeStaleTags g active w of
              Inl e \<Rightarrow> Some (Some e, w)
            | Inr w' \<Rightarrow> Some (None, w'))"
    unfolding main_def using assms e by simp
qed

lemma toLower_ignorable:
  "x \<in> set ['''', ''null'', ''nil''] \<Longrightarrow> toLower x = x"
  by (auto simp: toLower_def toLowerChar_def)

lemma tagName_inj: "tagName h = tagName h' \<Longrightarrow> ref h = ref h'"
  by (simp add: tagName_def)

lemma published_not_ignorable:
  "shouldIgnoreRef (ref h) \<Longrightarrow> tagName h \<notin> tagName ` set (published pu hs)"
proof
  assume ig: "shouldIgnoreRef (ref h)" and "tagName h \<in> tagName ` set (published pu hs)"
  then obtain h' where h': "h' \<in> set (published pu hs)" "tagName h = tagName h'" by auto
  from published_fresh[OF h'(1)] tagName_inj[OF h'(2)] ig show False by simp
qed

text \<open>The world after a list of commands has been run, in terms of the backend.\<close>

lemma backendAfter_append:
  "backendAfter g (xs @ ys) r = backendAfter g ys (backendAfter g xs r)"
  by (induction xs arbitrary: r) simp_all

lemma transcript_append:
  "transcript g (xs @ ys) r = transcript g xs r @ transcript g ys (backendAfter g xs r)"
  by (induction xs arbitrary: r) simp_all

lemma run_repo: "repo (run g c w) = snd (snd (git_write g c (repo w)))"
  by (simp add: run_def split: prod.splits)

lemma run_console:
  "console (run g c w) = console w @ [Echo c, Forwarded (fst (git_write g c (repo w)))]"
  by (simp add: run_def split: prod.splits)

lemma fold_run:
  "fold (run g) cmds w =
     \<lparr>repo = backendAfter g cmds (repo w), console = console w @ transcript g cmds (repo w)\<rparr>"
proof (induction cmds arbitrary: w)
  case Nil
  then show ?case by simp
next
  case (Cons c cs)
  have "fold (run g) (c # cs) w = fold (run g) cs (run g c w)" by simp
  also have "\<dots> = \<lparr>repo = backendAfter g cs (repo (run g c w)),
                     console = console (run g c w) @ transcript g cs (repo (run g c w))\<rparr>"
    by (rule Cons.IH)
  also have "\<dots> = \<lparr>repo = backendAfter g (c # cs) (repo w),
                     console = console w @ transcript g (c # cs) (repo w)\<rparr>"
    by (simp only: run_repo run_console backendAfter.simps transcript.simps append_assoc
          append_Cons append_Nil)
  finally show ?case .
qed

lemma fold_publish_run:
  "fold (publish g dry) hs w = fold (run g) (map (publishCmd dry) hs) w"
  by (induction hs arbitrary: w)
     (simp_all add: publish_def publishCmd_def tagBranch_def pushBranch_def)

lemma reapLoop_run:
  "reapLoop g m ts w =
     fold (run g) (map deleteCmd (filter (\<lambda>t. hasPrefix t BRANCH_PREFIX \<and> t \<notin> m) ts)) w"
  by (induction ts arbitrary: w) (simp_all add: deleteTag_def)

lemma removeStaleTags_world:
  assumes "listTags g (repo w) = Inr ts"
  shows "removeStaleTags g active w =
     Inr \<lparr>repo = backendAfter g
                  (map deleteCmd (filter (\<lambda>t. hasPrefix t ''PR_BRANCH'' \<and> t \<notin> set active) ts))
                  (repo w),
          console = console w @
             transcript g
               (map deleteCmd (filter (\<lambda>t. hasPrefix t ''PR_BRANCH'' \<and> t \<notin> set active) ts))
               (repo w)\<rparr>"
  using assms by (simp add: removeStaleTags_def reapLoop_run fold_run BRANCH_PREFIX_def)

lemma mainLoop_world:
  "mainLoop g dry paths ([], {}, \<lparr>repo = r, console = []\<rparr>) =
     (None,
      (if dry then map tagName (published {} (allTips paths)) else []),
      head.sha ` set (published {} (allTips paths)),
      \<lparr>repo = backendAfter g (map (publishCmd dry) (published {} (allTips paths))) r,
       console = transcript g (map (publishCmd dry) (published {} (allTips paths))) r\<rparr>)"
  by (simp add: mainLoop_published fold_publish_run fold_run)

lemma main_world:
  assumes "findCommitPaths n g r ''main'' = Some (Inr paths)"
      and "listTags g (backendAfter g (map (publishCmd dry) (published {} (allTips paths))) r)
             = Inr ts"
  shows "main n g dry r =
     Some (None,
       \<lparr>repo = backendAfter g
           (map (publishCmd dry) (published {} (allTips paths)) @
            map deleteCmd
              (filter (\<lambda>t. hasPrefix t ''PR_BRANCH'' \<and>
                           t \<notin> set (if dry then map tagName (published {} (allTips paths)) else []))
                 ts)) r,
        console = transcript g
           (map (publishCmd dry) (published {} (allTips paths)) @
            map deleteCmd
              (filter (\<lambda>t. hasPrefix t ''PR_BRANCH'' \<and>
                           t \<notin> set (if dry then map tagName (published {} (allTips paths)) else []))
                 ts)) r\<rparr>)"
proof -
  let ?P = "map (publishCmd dry) (published {} (allTips paths))"
  let ?A = "if dry then map tagName (published {} (allTips paths)) else []"
  let ?w = "\<lparr>repo = backendAfter g ?P r, console = transcript g ?P r\<rparr>"
  have loop: "mainLoop g dry paths ([], {}, \<lparr>repo = r, console = []\<rparr>) =
                (None, ?A, head.sha ` set (published {} (allTips paths)), ?w)"
    by (rule mainLoop_world)
  have t: "listTags g (repo ?w) = Inr ts" using assms(2) by simp
  show ?thesis
    using main_after_loop(2)[OF assms(1) loop] removeStaleTags_world[OF t, of ?A]
    by (simp add: backendAfter_append transcript_append)
qed

lemma main_ends:
  assumes "findCommitPaths n g r ''main'' = Some (Inr paths)"
  shows "\<exists>e w D. main n g dry r = Some (e, w) \<and>
           repo w = backendAfter g
                      (map (publishCmd dry) (published {} (allTips paths)) @ map deleteCmd D) r \<and>
           console w = transcript g
                      (map (publishCmd dry) (published {} (allTips paths)) @ map deleteCmd D) r"
proof -
  let ?P = "map (publishCmd dry) (published {} (allTips paths))"
  let ?A = "if dry then map tagName (published {} (allTips paths)) else []"
  let ?w = "\<lparr>repo = backendAfter g ?P r, console = transcript g ?P r\<rparr>"
  have loop: "mainLoop g dry paths ([], {}, \<lparr>repo = r, console = []\<rparr>) =
                (None, ?A, head.sha ` set (published {} (allTips paths)), ?w)"
    by (rule mainLoop_world)
  note m = main_after_loop(2)[OF assms loop]
  show ?thesis
  proof (cases "listTags g (repo ?w)")
    case (Inl e)
    then have 1: "main n g dry r = Some (Some e, ?w)"
      using m by (simp add: removeStaleTags_def)
    have 2: "repo ?w = backendAfter g (?P @ map deleteCmd []) r" by simp
    have 3: "console ?w = transcript g (?P @ map deleteCmd []) r" by simp
    show ?thesis using 1 2 3 by (intro exI conjI)
  next
    case (Inr ts)
    let ?D = "filter (\<lambda>t. hasPrefix t ''PR_BRANCH'' \<and> t \<notin> set ?A) ts"
    let ?w' = "\<lparr>repo = backendAfter g (map deleteCmd ?D) (repo ?w),
                console = console ?w @ transcript g (map deleteCmd ?D) (repo ?w)\<rparr>"
    have 1: "main n g dry r = Some (None, ?w')"
      using removeStaleTags_world[OF Inr, of ?A] m by simp
    have 2: "repo ?w' = backendAfter g (?P @ map deleteCmd ?D) r"
      by (simp add: backendAfter_append)
    have 3: "console ?w' = transcript g (?P @ map deleteCmd ?D) r"
      by (simp add: transcript_append)
    show ?thesis using 1 2 3 by (intro exI conjI)
  qed
qed

section \<open>Concrete runs\<close>

lemma diamond_paths_found:
  "findCommitPaths 4 (mem_git True) diamond_repo ''main'' = Some (Inr diamond_paths)"
  by code_simp

lemma diamond_published:
  "published {} (allTips diamond_paths) =
     [\<lparr>head.sha = ''t'', ref = ''top''\<rparr>, \<lparr>head.sha = ''a'', ref = ''left''\<rparr>,
      \<lparr>head.sha = ''b'', ref = ''right''\<rparr>]"
  by code_simp

lemma diamond_tags_listed:
  "listTags (mem_git True) (repo \<lparr>repo = diamond_repo, console = []\<rparr>) =
     Inr [''PR_BRANCHES'', ''PR_BRANCH/left'', ''v1.0'']"
  by code_simp

lemma diamond_reaped:
  "\<lparr>repo = backendAfter (mem_git True)
       (map deleteCmd (filter (\<lambda>t. hasPrefix t ''PR_BRANCH'' \<and> t \<notin> set [''PR_BRANCH/left''])
          [''PR_BRANCHES'', ''PR_BRANCH/left'', ''v1.0'']))
       (repo \<lparr>repo = diamond_repo, console = []\<rparr>),
    console = console \<lparr>repo = diamond_repo, console = []\<rparr> @
       transcript (mem_git True)
         (map deleteCmd (filter (\<lambda>t. hasPrefix t ''PR_BRANCH'' \<and> t \<notin> set [''PR_BRANCH/left''])
            [''PR_BRANCHES'', ''PR_BRANCH/left'', ''v1.0'']))
         (repo \<lparr>repo = diamond_repo, console = []\<rparr>)\<rparr> =
   \<lparr>repo = diamond_repo\<lparr>repo_tags := [''PR_BRANCH/left'', ''v1.0'']\<rparr>,
    console = [Echo [''git'', ''tag'', ''--delete'', ''PR_BRANCHES''], Forwarded ''Deleted tag'']\<rparr>"
  by code_simp

section \<open>The claims about publishing and reaping\<close>

text \<open>
  C3. Within one run a commit identity is published (pushed or tagged) at most once, also
  when several paths yield heads with it. A run whose history reads succeed ends, and the
  commands the backend has received are, in this order and each exactly once, one publish
  command for each head of \<open>published {} (allTips paths)\<close> (the heads the callback is
  called on, all paths taken in order, starting from an empty \<open>pushed\<close>), then tag
  deletions; those heads have pairwise distinct identities.
\<close>

theorem identity_published_at_most_once:
  assumes "findCommitPaths n g r ''main'' = Some (Inr paths)"
  shows "\<exists>e w D. main n g dry r = Some (e, w) \<and>
           repo w = backendAfter g
                      (map (publishCmd dry) (published {} (allTips paths)) @ map deleteCmd D) r \<and>
           console w = transcript g
                      (map (publishCmd dry) (published {} (allTips paths)) @ map deleteCmd D) r \<and>
           distinct (map head.sha (published {} (allTips paths)))"
proof -
  from main_ends[OF assms, of dry] obtain e w D where
    1: "main n g dry r = Some (e, w)"
    and 2: "repo w = backendAfter g
              (map (publishCmd dry) (published {} (allTips paths)) @ map deleteCmd D) r"
    and 3: "console w = transcript g
              (map (publishCmd dry) (published {} (allTips paths)) @ map deleteCmd D) r"
    by blast
  have 4: "distinct (map head.sha (published {} (allTips paths)))"
    by (rule published_distinct)
  show ?thesis using 1 2 3 4 by (intro exI conjI)
qed

theorem identity_published_at_most_once_witness:
  "findCommitPaths 4 (mem_git True) diamond_repo ''main'' = Some (Inr diamond_paths) \<and>
   (\<exists>e w D. main 4 (mem_git True) True diamond_repo = Some (e, w) \<and>
      repo w = backendAfter (mem_git True)
        (map (publishCmd True)
           [\<lparr>head.sha = ''t'', ref = ''top''\<rparr>, \<lparr>head.sha = ''a'', ref = ''left''\<rparr>,
            \<lparr>head.sha = ''b'', ref = ''right''\<rparr>] @ map deleteCmd D) diamond_repo \<and>
      console w = transcript (mem_git True)
        (map (publishCmd True)
           [\<lparr>head.sha = ''t'', ref = ''top''\<rparr>, \<lparr>head.sha = ''a'', ref = ''left''\<rparr>,
            \<lparr>head.sha = ''b'', ref = ''right''\<rparr>] @ map deleteCmd D) diamond_repo \<and>
      distinct (map head.sha
          [\<lparr>head.sha = ''t'', ref = ''top''\<rparr>, \<lparr>head.sha = ''a'', ref = ''left''\<rparr>,
           \<lparr>head.sha = ''b'', ref = ''right''\<rparr>]))"
  using diamond_paths_found
    identity_published_at_most_once[OF diamond_paths_found, of True, unfolded diamond_published]
  by (rule conjI)

text \<open>
  C8. A head whose ref equals the empty string, \<open>null\<close> or \<open>nil\<close> up to the case of
  letters is never published: \<open>dfsPushes\<close> behaves as if the head were not in the list
  (no call of the callback, so no push and no tag, and no change of \<open>pushed\<close> on its
  account), it is not among the published heads, and its tag name is not in the list
  \<open>tagBranches\<close> returns nor in the active list of a dry run.
\<close>

theorem ignorable_ref_never_published:
  assumes "x \<in> set ['''', ''null'', ''nil'']" and "toLower (ref h) = toLower x"
  shows "dfsPushes (xs @ h # ys) f st = dfsPushes (xs @ ys) f st \<and>
         h \<notin> set (published pu hs) \<and>
         tagName h \<notin> set (fst (tagBranches g hs (pu, w))) \<and>
         tagName h \<notin> set (fst (snd (mainLoop g True paths ([], pu, w))))"
proof -
  have ig: "shouldIgnoreRef (ref h)"
    using assms toLower_ignorable[OF assms(1)] by (simp add: shouldIgnoreRef_def)
  obtain pu0 a where st: "st = (pu0, a)" by (cases st)
  have "published pu0 (xs @ h # ys) = published pu0 (xs @ ys)"
    using ig by (intro published_skip) simp
  then have 1: "dfsPushes (xs @ h # ys) f st = dfsPushes (xs @ ys) f st"
    unfolding st by (rule dfsPushes_cong_published)
  have 2: "h \<notin> set (published pu hs)"
    using published_fresh[of h pu hs] ig by blast
  have 3: "tagName h \<notin> set (fst (tagBranches g hs (pu, w)))"
    using published_not_ignorable[OF ig, of pu hs] by (simp add: tagBranches_published)
  have 4: "tagName h \<notin> set (fst (snd (mainLoop g True paths ([], pu, w))))"
    using published_not_ignorable[OF ig, of pu "allTips paths"] by (simp add: mainLoop_published)
  show ?thesis using 1 2 3 4 by (intro conjI)
qed

theorem ignorable_ref_never_published_witness:
  "''null'' \<in> set ['''', ''null'', ''nil''] \<and>
   toLower (ref \<lparr>head.sha = ''c9'', ref = ''NuLL''\<rparr>) = toLower ''null'' \<and>
   (dfsPushes ([\<lparr>head.sha = ''c1'', ref = ''A''\<rparr>] @ \<lparr>head.sha = ''c9'', ref = ''NuLL''\<rparr> # [])
        (\<lambda>h acc. acc @ [h]) ({}, []) =
    dfsPushes ([\<lparr>head.sha = ''c1'', ref = ''A''\<rparr>] @ []) (\<lambda>h acc. acc @ [h]) ({}, []) \<and>
    \<lparr>head.sha = ''c9'', ref = ''NuLL''\<rparr> \<notin>
      set (published {} [\<lparr>head.sha = ''c9'', ref = ''NuLL''\<rparr>]) \<and>
    tagName \<lparr>head.sha = ''c9'', ref = ''NuLL''\<rparr> \<notin>
      set (fst (tagBranches (mem_git True) [\<lparr>head.sha = ''c9'', ref = ''NuLL''\<rparr>]
                 ({}, \<lparr>repo = stack_repo, console = []\<rparr>))) \<and>
    tagName \<lparr>head.sha = ''c9'', ref = ''NuLL''\<rparr> \<notin>
      set (fst (snd (mainLoop (mem_git True) True diamond_paths
                 ([], {}, \<lparr>repo = stack_repo, console = []\<rparr>)))))"
proof -
  have a: "''null'' \<in> set ['''', ''null'', ''nil'']" by simp
  have b: "toLower (ref \<lparr>head.sha = ''c9'', ref = ''NuLL''\<rparr>) = toLower ''null''"
    by code_simp
  show ?thesis
    by (rule conjI[OF a conjI[OF b ignorable_ref_never_published[OF a b]]])
qed

text \<open>
  C10. The reaper selects by the raw prefix \<open>PR_BRANCH\<close>, without the \<open>/\<close>: the
  backend receives \<open>git tag --delete\<close>, once each and in the order listed, for exactly the
  listed tags whose name starts with \<open>PR_BRANCH\<close> and is not in the active list; so a tag
  \<open>PR_BRANCHES\<close> that is not active is deleted, and no tag without the prefix ever is.
\<close>

theorem reaper_selects_by_raw_prefix:
  assumes "listTags g (repo w) = Inr ts"
  shows "removeStaleTags g active w =
           Inr \<lparr>repo = backendAfter g
                   (map deleteCmd (filter (\<lambda>t. hasPrefix t ''PR_BRANCH'' \<and> t \<notin> set active) ts))
                   (repo w),
                console = console w @
                   transcript g
                     (map deleteCmd (filter (\<lambda>t. hasPrefix t ''PR_BRANCH'' \<and> t \<notin> set active) ts))
                     (repo w)\<rparr> \<and>
         (''PR_BRANCHES'' \<in> set ts \<and> ''PR_BRANCHES'' \<notin> set active \<longrightarrow>
            deleteCmd ''PR_BRANCHES'' \<in>
              set (map deleteCmd (filter (\<lambda>t. hasPrefix t ''PR_BRANCH'' \<and> t \<notin> set active) ts)))"
proof -
  have p: "hasPrefix ''PR_BRANCHES'' ''PR_BRANCH''" by (simp add: hasPrefix_def)
  have "''PR_BRANCHES'' \<in> set ts \<and> ''PR_BRANCHES'' \<notin> set active \<longrightarrow>
            deleteCmd ''PR_BRANCHES'' \<in>
              set (map deleteCmd (filter (\<lambda>t. hasPrefix t ''PR_BRANCH'' \<and> t \<notin> set active) ts))"
    using p by auto
  then show ?thesis using removeStaleTags_world[OF assms, of active] by (intro conjI)
qed

theorem reaper_selects_by_raw_prefix_witness:
  "listTags (mem_git True) (repo \<lparr>repo = diamond_repo, console = []\<rparr>) =
     Inr [''PR_BRANCHES'', ''PR_BRANCH/left'', ''v1.0''] \<and>
   removeStaleTags (mem_git True) [''PR_BRANCH/left''] \<lparr>repo = diamond_repo, console = []\<rparr> =
     Inr \<lparr>repo = diamond_repo\<lparr>repo_tags := [''PR_BRANCH/left'', ''v1.0'']\<rparr>,
          console = [Echo [''git'', ''tag'', ''--delete'', ''PR_BRANCHES''],
                     Forwarded ''Deleted tag'']\<rparr>"
  using diamond_tags_listed
    reaper_selects_by_raw_prefix[OF diamond_tags_listed, of "[''PR_BRANCH/left'']",
      THEN conjunct1, unfolded diamond_reaped]
  by (rule conjI)

section \<open>The statuses of mutating commands are never looked at\<close>

lemma read_override: "git_read (overrideStatus ok g) = git_read g"
  by (simp add: overrideStatus_def)

lemma getParents_override: "getParents (overrideStatus ok g) r s = getParents g r s"
  by (simp add: getParents_def read_override)

lemma getSha_override: "getSha (overrideStatus ok g) r s = getSha g r s"
  by (simp add: getSha_def read_override)

lemma getMessage_override: "getMessage (overrideStatus ok g) r s = getMessage g r s"
  by (simp add: getMessage_def read_override)

lemma listTags_override: "listTags (overrideStatus ok g) r = listTags g r"
  by (simp add: listTags_def read_override)

lemma makeCommit_override: "makeCommit (overrideStatus ok g) r s = makeCommit g r s"
  by (simp add: makeCommit_def getParents_override getMessage_override cong: sum.case_cong)

lemma run_override: "run (overrideStatus ok g) argv w = run g argv w"
  by (simp add: run_def overrideStatus_def split: prod.splits)

lemma traverse_override:
  shows "traversePaths n g r s t st = traversePaths n (overrideStatus ok g) r s t st"
    and "traverseParents n g r ps t st = traverseParents n (overrideStatus ok g) r ps t st"
proof (induction n g r s t st and n g r ps t st rule: traversePaths_traverseParents.induct)
  case (1 g r source target st)
  show ?case by simp
next
  case (2 n g r source target st)
  note gp = getParents_override and mc = makeCommit_override
  show ?case
  proof (cases "source = target")
    case True
    then show ?thesis by simp
  next
    case False
    show ?thesis
    proof (cases "getParents g r source")
      case (Inl e)
      then show ?thesis using False by (simp add: gp)
    next
      case ps: (Inr ps)
      show ?thesis
      proof (cases "makeCommit g r source")
        case (Inl e)
        then show ?thesis using False ps by (simp add: gp mc)
      next
        case c: (Inr c)
        from "2.IH"[OF False ps c] show ?thesis
          using False ps c by (simp add: gp mc)
      qed
    qed
  qed
next
  case (3 n g r target st)
  show ?case by simp
next
  case (4 n g r p ps target st)
  show ?case
  proof (cases "traversePaths n g r p target st")
    case None
    then show ?thesis using "4.IH"(1) by simp
  next
    case (Some res)
    show ?thesis
    proof (cases res)
      case (Inl e)
      then show ?thesis using Some "4.IH"(1) by simp
    next
      case (Inr st')
      from "4.IH"(2)[of res st'] Some Inr "4.IH"(1)
      show ?thesis by simp
    qed
  qed
qed

lemma findCommitPaths_override:
  "findCommitPaths n (overrideStatus ok g) r b = findCommitPaths n g r b"
  by (simp add: findCommitPaths_def getSha_override traverse_override(1)[symmetric] cong: sum.case_cong)

lemma publish_override: "publish (overrideStatus ok g) dry = publish g dry"
  by (intro ext) (simp add: publish_def tagBranch_def pushBranch_def run_override)

lemma reapLoop_override: "reapLoop (overrideStatus ok g) m ts w = reapLoop g m ts w"
  by (induction ts arbitrary: w) (simp_all add: deleteTag_def run_override)

lemma removeStaleTags_override:
  "removeStaleTags (overrideStatus ok g) active w = removeStaleTags g active w"
  by (simp add: removeStaleTags_def listTags_override reapLoop_override cong: sum.case_cong)

lemma mainLoop_override:
  "mainLoop (overrideStatus ok g) dry paths (act, pu, w) = mainLoop g dry paths (act, pu, w)"
  by (simp add: mainLoop_published publish_override)

lemma main_override: "main n (overrideStatus ok g) dry r = main n g dry r"
  unfolding main_def findCommitPaths_override mainLoop_override removeStaleTags_override ..

lemma main_read_failure:
  "findCommitPaths n g r ''main'' = Some (Inl e) \<Longrightarrow>
     main n g dry r = Some (Some e, \<lparr>repo = r, console = []\<rparr>)"
  by (simp add: main_def)

section \<open>Path enumeration: properties\<close>

lemma makeCommit_sha: "makeCommit g r s = Inr c \<Longrightarrow> commit.sha c = s"
  by (auto simp: makeCommit_def split: sum.splits)

lemma commitPath_Nil: "commitPath g r s s []"
  by (simp add: commitPath_def)

lemma commitPath_Cons:
  assumes "s \<noteq> t" and "getParents g r s = Inr ps" and "makeCommit g r s = Inr c"
      and "p \<in> set ps" and "commitPath g r p t q"
  shows "commitPath g r s t (c # q)"
  using assms makeCommit_sha[OF assms(3)]
  by (auto simp: commitPath_def list_ex_iff)

lemma traverse_sound:
  "traversePaths n g r s t st = Some (Inr st') \<Longrightarrow>
     fst st' = fst st \<and>
     (\<exists>new. snd st' = snd st @ map ((@) (fst st)) new \<and>
            (\<forall>q \<in> set new. commitPath g r s t q))"
  "traverseParents n g r ps t st = Some (Inr st') \<Longrightarrow>
     fst st' = fst st \<and>
     (\<exists>new. snd st' = snd st @ map ((@) (fst st)) new \<and>
            (\<forall>q \<in> set new. \<exists>p \<in> set ps. commitPath g r p t q))"
proof (induction n g r s t st and n g r ps t st arbitrary: st' and st'
       rule: traversePaths_traverseParents.induct)
  case (1 g r source target st)
  then show ?case by simp
next
  case (2 n g r source target st)
  show ?case
  proof (cases "source = target")
    case True
    with "2.prems" have st': "st' = (fst st, snd st @ [fst st])" by simp
    have 1: "fst st' = fst st" by (simp add: st')
    have 2: "snd st' = snd st @ map ((@) (fst st)) [[]]" by (simp add: st')
    have 3: "\<forall>q \<in> set [[]]. commitPath g r source target q"
      using True by (simp add: commitPath_Nil)
    show ?thesis using 1 2 3 by (intro conjI exI)
  next
    case False
    from "2.prems" False obtain parents where ps: "getParents g r source = Inr parents"
      by (cases "getParents g r source") auto
    from "2.prems" False ps obtain c where c: "makeCommit g r source = Inr c"
      by (cases "makeCommit g r source") auto
    from "2.prems" False ps c obtain st'' where
      rec: "traverseParents n g r parents target (fst st @ [c], snd st) = Some (Inr st'')"
      and st': "st' = (butlast (fst st''), snd st'')"
      by (auto split: option.splits sum.splits)
    from "2.IH"[OF False ps c rec, unfolded fst_conv snd_conv] obtain new where
      f: "fst st'' = fst st @ [c]"
      and n: "snd st'' = snd st @ map ((@) (fst st @ [c])) new"
      and q: "\<forall>q \<in> set new. \<exists>p \<in> set parents. commitPath g r p target q"
      by blast
    have 1: "fst st' = fst st" by (simp add: st' f)
    have 2: "snd st' = snd st @ map ((@) (fst st)) (map ((#) c) new)"
      by (simp add: st' n)
    have 3: "\<forall>q \<in> set (map ((#) c) new). commitPath g r source target q"
      using q commitPath_Cons[OF False ps c] by auto
    show ?thesis using 1 2 3 by (intro conjI exI)
  qed
next
  case (3 n g r target st)
  then have e: "st' = st" by simp
  have 1: "fst st' = fst st" by (simp add: e)
  have 2: "snd st' = snd st @ map ((@) (fst st)) []" by (simp add: e)
  have 3: "\<forall>q \<in> set []. \<exists>p \<in> set []. commitPath g r p target q" by simp
  show ?case using 1 2 3 by (intro conjI exI)
next
  case (4 n g r p ps target st)
  from "4.prems" obtain st1 where
    one: "traversePaths n g r p target st = Some (Inr st1)"
    and rest: "traverseParents n g r ps target st1 = Some (Inr st')"
    by (auto split: option.splits sum.splits)
  from "4.IH"(1)[OF one] obtain new1 where
    f1: "fst st1 = fst st" and n1: "snd st1 = snd st @ map ((@) (fst st)) new1"
    and q1: "\<forall>q \<in> set new1. commitPath g r p target q"
    by blast
  from "4.IH"(2)[OF one refl rest] obtain new2 where
    f2: "fst st' = fst st1" and n2: "snd st' = snd st1 @ map ((@) (fst st1)) new2"
    and q2: "\<forall>q \<in> set new2. \<exists>p' \<in> set ps. commitPath g r p' target q"
    by blast
  have 1: "fst st' = fst st" by (simp add: f1 f2)
  have 2: "snd st' = snd st @ map ((@) (fst st)) (new1 @ new2)" by (simp add: n1 n2 f1)
  have 3: "\<forall>q \<in> set (new1 @ new2). \<exists>p' \<in> set (p # ps). commitPath g r p' target q"
    using q1 q2 by auto
  show ?case using 1 2 3 by (intro conjI exI)
qed

lemma pathFrom_excludes_target: "pathFrom g r s t ss \<Longrightarrow> t \<notin> set ss"
proof (induction ss arbitrary: s)
  case Nil
  then show ?case by simp
next
  case (Cons x xs)
  then show ?case by (auto simp: list_ex_iff split: sum.splits)
qed

lemma pathFrom_last:
  "pathFrom g r s t ss \<Longrightarrow> ss \<noteq> [] \<Longrightarrow>
     \<exists>ps. getParents g r (last ss) = Inr ps \<and> t \<in> set ps"
proof (induction ss arbitrary: s)
  case Nil
  then show ?case by simp
next
  case (Cons x xs)
  from Cons.prems(1) obtain ps p where
    ps: "getParents g r s = Inr ps" "p \<in> set ps" "pathFrom g r p t xs" and x: "x = s"
    by (auto simp: list_ex_iff split: sum.splits)
  show ?case
  proof (cases xs)
    case Nil
    with ps x show ?thesis by simp
  next
    case (Cons y ys)
    with Cons.IH[OF ps(3)] show ?thesis by simp
  qed
qed

text \<open>When the enumeration succeeds, every read of every commit it went through has
  succeeded.\<close>

lemma descends_not_target: "descends g r t s via x \<Longrightarrow> s \<noteq> t"
  by (cases via) auto

lemma makeCommit_reads:
  "makeCommit g r s = Inr c \<Longrightarrow> (\<exists>m. getMessage g r s = Inr m)"
  by (auto simp: makeCommit_def split: sum.splits)

lemma traverse_reads_succeed:
  "traversePaths n g r s t st = Some (Inr st') \<Longrightarrow> descends g r t s via x \<Longrightarrow>
     (\<exists>ps. getParents g r x = Inr ps) \<and> (\<exists>m. getMessage g r x = Inr m)"
  "traverseParents n g r ps t st = Some (Inr st') \<Longrightarrow> p \<in> set ps \<Longrightarrow>
     descends g r t p via x \<Longrightarrow>
     (\<exists>ps. getParents g r x = Inr ps) \<and> (\<exists>m. getMessage g r x = Inr m)"
proof (induction n g r s t st and n g r ps t st arbitrary: st' via and st' p via
       rule: traversePaths_traverseParents.induct)
  case (1 g r source target st)
  then show ?case by simp
next
  case (2 n g r source target st)
  have ne: "source \<noteq> target" using descends_not_target[OF "2.prems"(2)] .
  from "2.prems"(1) ne obtain parents where ps: "getParents g r source = Inr parents"
    by (cases "getParents g r source") auto
  from "2.prems"(1) ne ps obtain c where c: "makeCommit g r source = Inr c"
    by (cases "makeCommit g r source") auto
  from "2.prems"(1) ne ps c obtain st'' where
    rec: "traverseParents n g r parents target (fst st @ [c], snd st) = Some (Inr st'')"
    by (auto split: option.splits sum.splits)
  show ?case
  proof (cases via)
    case Nil
    with "2.prems"(2) have "x = source" by simp
    then show ?thesis using ps makeCommit_reads[OF c] by simp
  next
    case (Cons p via')
    with "2.prems"(2) ps have p: "p \<in> set parents" and d: "descends g r target p via' x"
      by auto
    from "2.IH"[OF ne ps c rec p d] show ?thesis .
  qed
next
  case (3 n g r target st)
  then show ?case by simp
next
  case (4 n g r q qs target st)
  from "4.prems"(1) obtain st1 where
    one: "traversePaths n g r q target st = Some (Inr st1)"
    and rest: "traverseParents n g r qs target st1 = Some (Inr st')"
    by (auto split: option.splits sum.splits)
  show ?case
  proof (cases "p = q")
    case True
    with "4.IH"(1)[OF one] "4.prems"(3) show ?thesis by blast
  next
    case False
    with "4.prems"(2) have "p \<in> set qs" by simp
    from "4.IH"(2)[OF one refl rest this "4.prems"(3)] show ?thesis .
  qed
qed

lemma enumeration_reads_succeed:
  assumes "findCommitPaths n g r b = Some (Inr paths)"
      and "getSha g r ''HEAD'' = Inr s" and "getSha g r b = Inr t"
      and "descends g r t s via x"
  shows "(\<exists>ps. getParents g r x = Inr ps) \<and> (\<exists>m. getMessage g r x = Inr m)"
proof -
  from assms(1,2,3) obtain st where
    "traversePaths n g r s t ([], []) = Some (Inr st)"
    by (auto simp: findCommitPaths_def split: option.splits sum.splits)
  from traverse_reads_succeed(1)[OF this assms(4)] show ?thesis .
qed

lemma main_ends_in_enumeration:
  assumes "\<forall>paths. findCommitPaths n g r ''main'' \<noteq> Some (Inr paths)"
  shows "main n g dry r = None \<or>
         (\<exists>e. main n g dry r = Some (Some e, \<lparr>repo = r, console = []\<rparr>))"
proof (cases "findCommitPaths n g r ''main''")
  case None
  then show ?thesis by (simp add: main_def)
next
  case (Some res)
  show ?thesis
  proof (cases res)
    case (Inl e)
    then show ?thesis using Some by (simp add: main_def)
  next
    case (Inr paths)
    then show ?thesis using Some assms by simp
  qed
qed

lemma traverseParents_returns:
  "(\<And>p st. p \<in> set ps \<Longrightarrow> traversePaths n g r p t st \<noteq> None) \<Longrightarrow>
     traverseParents n g r ps t st \<noteq> None"
proof (induction ps arbitrary: st)
  case Nil
  then show ?case by simp
next
  case (Cons p ps)
  have one: "traversePaths n g r p t st \<noteq> None" using Cons.prems[of p st] by simp
  have rest: "traverseParents n g r ps t st' \<noteq> None" for st'
    using Cons.IH[of st'] Cons.prems by simp
  show ?case using one rest by (auto split: option.splits sum.splits)
qed

lemma traversePaths_returns:
  "shallow d g r t s \<Longrightarrow> traversePaths (Suc d) g r s t st \<noteq> None"
proof (induction d arbitrary: s st)
  case 0
  then show ?case by simp
next
  case (Suc d)
  show ?case
  proof (cases "s = t")
    case True
    then show ?thesis by simp
  next
    case ne: False
    show ?thesis
    proof (cases "getParents g r s")
      case (Inl e)
      then show ?thesis using ne by simp
    next
      case (Inr ps)
      with Suc.prems ne have all: "\<forall>p \<in> set ps. shallow d g r t p"
        by (simp add: list_all_iff)
      have tp: "traverseParents (Suc d) g r ps t st' \<noteq> None" for st'
        using traverseParents_returns[of ps "Suc d" g r t st'] Suc.IH all by blast
      show ?thesis
      proof (cases "makeCommit g r s")
        case (Inl e)
        then show ?thesis using ne Inr by simp
      next
        case c: (Inr c)
        from tp[of "(fst st @ [c], snd st)"] obtain res where
          "traverseParents (Suc d) g r ps t (fst st @ [c], snd st) = Some res" by auto
        then show ?thesis using ne Inr c by (cases res) simp_all
      qed
    qed
  qed
qed

lemma main_returns:
  assumes "getSha g r ''HEAD'' = Inr s" and "getSha g r ''main'' = Inr t"
      and "shallow d g r t s"
  shows "main (Suc d) g dry r \<noteq> None"
proof -
  from traversePaths_returns[OF assms(3), of "([], [])"] obtain res where
    "traversePaths (Suc d) g r s t ([], []) = Some res" by auto
  then have f: "findCommitPaths (Suc d) g r ''main'' \<noteq> None"
    using assms(1,2) by (cases res) (simp_all add: findCommitPaths_def del: traversePaths.simps)
  show ?thesis
  proof (cases "findCommitPaths (Suc d) g r ''main''")
    case None
    with f show ?thesis by simp
  next
    case (Some res)
    show ?thesis
    proof (cases res)
      case (Inl e)
      with Some show ?thesis by (simp add: main_def)
    next
      case (Inr paths)
      from main_ends[OF Some[unfolded Inr], of dry] show ?thesis by auto
    qed
  qed
qed











section \<open>More concrete runs\<close>

lemma stack_paths_found:
  "findCommitPaths 3 (mem_git True) stack_repo ''main'' = Some (Inr stack_paths)"
  by code_simp

lemma stack_live_loop:
  "mainLoop (mem_git True) False stack_paths ([], {}, \<lparr>repo = stack_repo, console = []\<rparr>) =
     (None, [], {''c2''}, stack_pushed)"
  by code_simp

lemma stack_tags_listed:
  "listTags (mem_git True) (repo stack_pushed) = Inr [''PR_BRANCH/old'', ''v1.0'']"
  by code_simp

lemma stack_paths_found_failing:
  "findCommitPaths 3 (mem_git False) stack_repo ''main'' = Some (Inr stack_paths)"
  by code_simp

lemma diamond_second_path:
  "[\<lparr>commit.sha = ''t'', message = [], psBranch = ''top'', isMerge = False\<rparr>,
    \<lparr>commit.sha = ''m'', message = [], psBranch = [], isMerge = True\<rparr>,
    \<lparr>commit.sha = ''b'', message = [], psBranch = ''right'', isMerge = False\<rparr>]
   \<in> set diamond_paths"
  by (simp add: diamond_paths_def)

lemma stack_reaped:
  "\<lparr>repo = backendAfter (mem_git True)
       (map deleteCmd (filter (\<lambda>t. hasPrefix t ''PR_BRANCH'' \<and> t \<notin> set [])
          [''PR_BRANCH/old'', ''v1.0'']))
       (repo stack_pushed),
    console = console stack_pushed @
       transcript (mem_git True)
         (map deleteCmd (filter (\<lambda>t. hasPrefix t ''PR_BRANCH'' \<and> t \<notin> set [])
            [''PR_BRANCH/old'', ''v1.0'']))
         (repo stack_pushed)\<rparr> =
   \<lparr>repo = stack_repo\<lparr>repo_tags := [''v1.0'']\<rparr>,
    console = [Echo [''git'', ''push'', ''--force'', ''origin'', ''c2:refs/heads/feat''],
               Forwarded [],
               Echo [''git'', ''tag'', ''--delete'', ''PR_BRANCH/old''],
               Forwarded ''Deleted tag'']\<rparr>"
  by code_simp

lemma stack_failing_tags:
  "listTags (mem_git False)
     (backendAfter (mem_git False)
        (map (publishCmd False) (published {} (allTips stack_paths))) stack_repo) =
   Inr [''PR_BRANCH/old'', ''v1.0'']"
  by code_simp

lemma stack_failing_world:
  "\<lparr>repo = backendAfter (mem_git False)
       (map (publishCmd False) (published {} (allTips stack_paths)) @
        map deleteCmd
          (filter (\<lambda>t. hasPrefix t ''PR_BRANCH'' \<and>
              t \<notin> set (if False then map tagName (published {} (allTips stack_paths)) else []))
             [''PR_BRANCH/old'', ''v1.0''])) stack_repo,
    console = transcript (mem_git False)
       (map (publishCmd False) (published {} (allTips stack_paths)) @
        map deleteCmd
          (filter (\<lambda>t. hasPrefix t ''PR_BRANCH'' \<and>
              t \<notin> set (if False then map tagName (published {} (allTips stack_paths)) else []))
             [''PR_BRANCH/old'', ''v1.0''])) stack_repo\<rparr> =
   \<lparr>repo = stack_repo,
    console = [Echo [''git'', ''push'', ''--force'', ''origin'', ''c2:refs/heads/feat''],
               Forwarded [],
               Echo [''git'', ''tag'', ''--delete'', ''PR_BRANCH/old''],
               Forwarded []]\<rparr>"
  by code_simp

lemma unborn_head_unresolved:
  "getSha (mem_git True) unborn_repo ''HEAD'' = Inl (Fatal ''Error running get sha err'')"
  by code_simp

lemma dangling_reads:
  "getSha (mem_git True) dangling_repo ''HEAD'' = Inr ''c2'' \<and>
   getSha (mem_git True) dangling_repo ''main'' = Inr ''c0'' \<and>
   descends (mem_git True) dangling_repo ''c0'' ''c2'' [''c1''] ''c1'' \<and>
   (getParents (mem_git True) dangling_repo ''c1'' = Inl (Fatal ''Error running get parents err'') \<or>
    getMessage (mem_git True) dangling_repo ''c1'' = Inl (Fatal ''Error running get parents err''))"
  by code_simp

lemma dangling_shallow: "shallow 2 (mem_git True) dangling_repo ''c0'' ''c2''"
  by code_simp

lemma dangling_aborts:
  "main 3 (mem_git True) False dangling_repo =
     Some (Some (Fatal ''Error running get parents err''),
           \<lparr>repo = dangling_repo, console = []\<rparr>)"
  by code_simp



section \<open>The claims about the run and the enumeration\<close>

text \<open>
  C1 (as amended). The reaper is not confined to dry runs: \<open>main\<close> calls it at the end of
  every run, dry or live, whose reads succeed. The backend then receives
  \<open>git tag --delete\<close>, once each, for the listed tags that start with \<open>PR_BRANCH\<close> and
  are not in the active list; the active list holds the tag names of a dry run and is
  empty in a live run, so a live run deletes every listed tag that starts with
  \<open>PR_BRANCH\<close>.
\<close>

theorem reaper_runs_in_every_mode:
  assumes "findCommitPaths n g r ''main'' = Some (Inr paths)"
      and "mainLoop g dry paths ([], {}, \<lparr>repo = r, console = []\<rparr>) = (e, active, pu, w)"
      and "listTags g (repo w) = Inr ts"
  shows "(\<not> dry \<longrightarrow> active = []) \<and>
         w = \<lparr>repo = backendAfter g (map (publishCmd dry) (published {} (allTips paths))) r,
              console = transcript g (map (publishCmd dry) (published {} (allTips paths))) r\<rparr> \<and>
         main n g dry r =
           Some (None,
             \<lparr>repo = backendAfter g
                 (map deleteCmd (filter (\<lambda>t. hasPrefix t ''PR_BRANCH'' \<and> t \<notin> set active) ts))
                 (repo w),
              console = console w @
                 transcript g
                   (map deleteCmd (filter (\<lambda>t. hasPrefix t ''PR_BRANCH'' \<and> t \<notin> set active) ts))
                   (repo w)\<rparr>)"
proof -
  have a: "\<not> dry \<longrightarrow> active = []"
    using assms(2) by (auto simp: mainLoop_world)
  have w: "w = \<lparr>repo = backendAfter g (map (publishCmd dry) (published {} (allTips paths))) r,
              console = transcript g (map (publishCmd dry) (published {} (allTips paths))) r\<rparr>"
    using assms(2) by (simp add: mainLoop_world)
  have m: "main n g dry r =
           Some (None,
             \<lparr>repo = backendAfter g
                 (map deleteCmd (filter (\<lambda>t. hasPrefix t ''PR_BRANCH'' \<and> t \<notin> set active) ts))
                 (repo w),
              console = console w @
                 transcript g
                   (map deleteCmd (filter (\<lambda>t. hasPrefix t ''PR_BRANCH'' \<and> t \<notin> set active) ts))
                   (repo w)\<rparr>)"
    using main_after_loop(2)[OF assms(1,2)] removeStaleTags_world[OF assms(3), of active]
    by simp
  show ?thesis using a w m by (intro conjI)
qed

theorem reaper_runs_in_every_mode_witness:
  "findCommitPaths 3 (mem_git True) stack_repo ''main'' = Some (Inr stack_paths) \<and>
   mainLoop (mem_git True) False stack_paths ([], {}, \<lparr>repo = stack_repo, console = []\<rparr>) =
     (None, [], {''c2''}, stack_pushed) \<and>
   listTags (mem_git True) (repo stack_pushed) = Inr [''PR_BRANCH/old'', ''v1.0''] \<and>
   main 3 (mem_git True) False stack_repo =
     Some (None,
       \<lparr>repo = stack_repo\<lparr>repo_tags := [''v1.0'']\<rparr>,
        console = [Echo [''git'', ''push'', ''--force'', ''origin'', ''c2:refs/heads/feat''],
                   Forwarded [],
                   Echo [''git'', ''tag'', ''--delete'', ''PR_BRANCH/old''],
                   Forwarded ''Deleted tag'']\<rparr>)"
  by (rule conjI[OF stack_paths_found conjI[OF stack_live_loop
        conjI[OF stack_tags_listed
          reaper_runs_in_every_mode[OF stack_paths_found stack_live_loop stack_tags_listed,
            THEN conjunct2, THEN conjunct2, unfolded stack_reaped]]]])

text \<open>C1 as stated fails: a live run on a repository with the tag \<open>PR_BRANCH/old\<close> runs
  \<open>git tag --delete PR_BRANCH/old\<close>, and the tag is gone afterwards.\<close>

theorem live_run_deletes_namespace_tag_counterexample:
  "main 3 (mem_git True) False stack_repo =
     Some (None,
       \<lparr>repo = stack_repo\<lparr>repo_tags := [''v1.0'']\<rparr>,
        console = [Echo [''git'', ''push'', ''--force'', ''origin'', ''c2:refs/heads/feat''],
                   Forwarded [],
                   Echo [''git'', ''tag'', ''--delete'', ''PR_BRANCH/old''],
                   Forwarded ''Deleted tag'']\<rparr>) \<and>
   repo_tags stack_repo = [''PR_BRANCH/old'', ''v1.0'']"
  by code_simp

text \<open>
  C9 (as amended). The status of a mutating command (force-push, tag creation, tag deletion)
  is discarded: the run is the same whatever statuses the backend reports, so a failure
  never aborts it. When the reads succeed the run ends with exit status 0 and the backend
  has received, once each and in order, one publish command for every head to publish and
  one delete for every stale tag. A failure is not logged by the program: all it prints is
  the command line, before the command runs; only what the child itself writes is
  forwarded. In contrast a failed history read ends the run with a fatal error before any
  command is run: when \<open>HEAD\<close> or \<open>main\<close> does not resolve, when the parents or the
  message of \<open>HEAD\<close> cannot be read, and when the parents or the message of any commit
  the traversal goes through cannot be read: then no run completes normally, and a run
  with fuel for the depth of the history ends with the fatal error.
\<close>

theorem mutation_status_is_discarded:
  "main n (overrideStatus ok g) dry r = main n g dry r \<and>
   (getSha g r ''HEAD'' = Inl e \<longrightarrow>
      main n g dry r = Some (Some e, \<lparr>repo = r, console = []\<rparr>)) \<and>
   (getSha g r ''HEAD'' = Inr s \<and> getSha g r ''main'' = Inl e \<longrightarrow>
      main n g dry r = Some (Some e, \<lparr>repo = r, console = []\<rparr>)) \<and>
   (getSha g r ''HEAD'' = Inr s \<and> getSha g r ''main'' = Inr t \<and> s \<noteq> t \<and>
    getParents g r s = Inl e \<longrightarrow>
      main (Suc n) g dry r = Some (Some e, \<lparr>repo = r, console = []\<rparr>)) \<and>
   (getSha g r ''HEAD'' = Inr s \<and> getSha g r ''main'' = Inr t \<and> s \<noteq> t \<and>
    getParents g r s = Inr ps \<and> getMessage g r s = Inl e \<longrightarrow>
      main (Suc n) g dry r = Some (Some e, \<lparr>repo = r, console = []\<rparr>)) \<and>
   (getSha g r ''HEAD'' = Inr s \<and> getSha g r ''main'' = Inr t \<and> descends g r t s via x \<and>
    (getParents g r x = Inl e \<or> getMessage g r x = Inl e) \<longrightarrow>
      main n g dry r = None \<or>
      (\<exists>e'. main n g dry r = Some (Some e', \<lparr>repo = r, console = []\<rparr>))) \<and>
   (getSha g r ''HEAD'' = Inr s \<and> getSha g r ''main'' = Inr t \<and> shallow d g r t s \<and>
    descends g r t s via x \<and>
    (getParents g r x = Inl e \<or> getMessage g r x = Inl e) \<longrightarrow>
      (\<exists>e'. main (Suc d) g dry r = Some (Some e', \<lparr>repo = r, console = []\<rparr>))) \<and>
   (findCommitPaths n g r ''main'' = Some (Inr paths) \<and>
    listTags g (backendAfter g (map (publishCmd dry) (published {} (allTips paths))) r) = Inr ts
    \<longrightarrow>
      main n g dry r =
        Some (None,
          \<lparr>repo = backendAfter g
              (map (publishCmd dry) (published {} (allTips paths)) @
               map deleteCmd
                 (filter (\<lambda>t. hasPrefix t ''PR_BRANCH'' \<and>
                     t \<notin> set (if dry then map tagName (published {} (allTips paths)) else []))
                    ts)) r,
           console = transcript g
              (map (publishCmd dry) (published {} (allTips paths)) @
               map deleteCmd
                 (filter (\<lambda>t. hasPrefix t ''PR_BRANCH'' \<and>
                     t \<notin> set (if dry then map tagName (published {} (allTips paths)) else []))
                    ts)) r\<rparr>))"
proof (intro conjI impI)
  show "main n (overrideStatus ok g) dry r = main n g dry r"
    by (rule main_override)
next
  assume "getSha g r ''HEAD'' = Inl e"
  then have "findCommitPaths n g r ''main'' = Some (Inl e)"
    by (simp add: findCommitPaths_def)
  then show "main n g dry r = Some (Some e, \<lparr>repo = r, console = []\<rparr>)"
    by (rule main_read_failure)
next
  assume "getSha g r ''HEAD'' = Inr s \<and> getSha g r ''main'' = Inl e"
  then have "findCommitPaths n g r ''main'' = Some (Inl e)"
    by (simp add: findCommitPaths_def)
  then show "main n g dry r = Some (Some e, \<lparr>repo = r, console = []\<rparr>)"
    by (rule main_read_failure)
next
  assume "getSha g r ''HEAD'' = Inr s \<and> getSha g r ''main'' = Inr t \<and> s \<noteq> t \<and>
          getParents g r s = Inl e"
  then have "findCommitPaths (Suc n) g r ''main'' = Some (Inl e)"
    by (simp add: findCommitPaths_def)
  then show "main (Suc n) g dry r = Some (Some e, \<lparr>repo = r, console = []\<rparr>)"
    by (rule main_read_failure)
next
  assume "getSha g r ''HEAD'' = Inr s \<and> getSha g r ''main'' = Inr t \<and> s \<noteq> t \<and>
          getParents g r s = Inr ps \<and> getMessage g r s = Inl e"
  then have "findCommitPaths (Suc n) g r ''main'' = Some (Inl e)"
    by (simp add: findCommitPaths_def makeCommit_def)
  then show "main (Suc n) g dry r = Some (Some e, \<lparr>repo = r, console = []\<rparr>)"
    by (rule main_read_failure)
next
  assume h: "getSha g r ''HEAD'' = Inr s \<and> getSha g r ''main'' = Inr t \<and>
             descends g r t s via x \<and>
             (getParents g r x = Inl e \<or> getMessage g r x = Inl e)"
  have "\<forall>paths. findCommitPaths n g r ''main'' \<noteq> Some (Inr paths)"
  proof (intro allI notI)
    fix paths
    assume "findCommitPaths n g r ''main'' = Some (Inr paths)"
    from enumeration_reads_succeed[OF this, of s t via x] h show False by auto
  qed
  then show "main n g dry r = None \<or>
      (\<exists>e'. main n g dry r = Some (Some e', \<lparr>repo = r, console = []\<rparr>))"
    by (rule main_ends_in_enumeration)
next
  assume h: "getSha g r ''HEAD'' = Inr s \<and> getSha g r ''main'' = Inr t \<and>
             shallow d g r t s \<and> descends g r t s via x \<and>
             (getParents g r x = Inl e \<or> getMessage g r x = Inl e)"
  have "\<forall>paths. findCommitPaths (Suc d) g r ''main'' \<noteq> Some (Inr paths)"
  proof (intro allI notI)
    fix paths
    assume "findCommitPaths (Suc d) g r ''main'' = Some (Inr paths)"
    from enumeration_reads_succeed[OF this, of s t via x] h show False by auto
  qed
  from main_ends_in_enumeration[OF this, of dry] main_returns[of g r s t d dry] h
  show "\<exists>e'. main (Suc d) g dry r = Some (Some e', \<lparr>repo = r, console = []\<rparr>)"
    by blast
next
  assume "findCommitPaths n g r ''main'' = Some (Inr paths) \<and>
    listTags g (backendAfter g (map (publishCmd dry) (published {} (allTips paths))) r) = Inr ts"
  then show "main n g dry r =
        Some (None,
          \<lparr>repo = backendAfter g
              (map (publishCmd dry) (published {} (allTips paths)) @
               map deleteCmd
                 (filter (\<lambda>t. hasPrefix t ''PR_BRANCH'' \<and>
                     t \<notin> set (if dry then map tagName (published {} (allTips paths)) else []))
                    ts)) r,
           console = transcript g
              (map (publishCmd dry) (published {} (allTips paths)) @
               map deleteCmd
                 (filter (\<lambda>t. hasPrefix t ''PR_BRANCH'' \<and>
                     t \<notin> set (if dry then map tagName (published {} (allTips paths)) else []))
                    ts)) r\<rparr>)"
    using main_world[of n g r paths dry ts] by blast
qed

theorem mutation_status_is_discarded_witness:
  "(findCommitPaths 3 (mem_git False) stack_repo ''main'' = Some (Inr stack_paths) \<and>
    listTags (mem_git False)
      (backendAfter (mem_git False)
         (map (publishCmd False) (published {} (allTips stack_paths))) stack_repo) =
    Inr [''PR_BRANCH/old'', ''v1.0'']) \<and>
   main 3 (mem_git False) False stack_repo =
     Some (None,
       \<lparr>repo = stack_repo,
        console = [Echo [''git'', ''push'', ''--force'', ''origin'', ''c2:refs/heads/feat''],
                   Forwarded [],
                   Echo [''git'', ''tag'', ''--delete'', ''PR_BRANCH/old''],
                   Forwarded []]\<rparr>) \<and>
   getSha (mem_git True) unborn_repo ''HEAD'' = Inl (Fatal ''Error running get sha err'') \<and>
   main 3 (mem_git True) False unborn_repo =
     Some (Some (Fatal ''Error running get sha err''), \<lparr>repo = unborn_repo, console = []\<rparr>) \<and>
   (getSha (mem_git True) dangling_repo ''HEAD'' = Inr ''c2'' \<and>
    getSha (mem_git True) dangling_repo ''main'' = Inr ''c0'' \<and>
    descends (mem_git True) dangling_repo ''c0'' ''c2'' [''c1''] ''c1'' \<and>
    (getParents (mem_git True) dangling_repo ''c1'' = Inl (Fatal ''Error running get parents err'') \<or>
     getMessage (mem_git True) dangling_repo ''c1'' = Inl (Fatal ''Error running get parents err''))) \<and>
   (main 3 (mem_git True) False dangling_repo = None \<or>
    (\<exists>e'. main 3 (mem_git True) False dangling_repo =
            Some (Some e', \<lparr>repo = dangling_repo, console = []\<rparr>))) \<and>
   shallow 2 (mem_git True) dangling_repo ''c0'' ''c2'' \<and>
   (\<exists>e'. main (Suc 2) (mem_git True) False dangling_repo =
           Some (Some e', \<lparr>repo = dangling_repo, console = []\<rparr>)) \<and>
   main 3 (mem_git True) False dangling_repo =
     Some (Some (Fatal ''Error running get parents err''),
           \<lparr>repo = dangling_repo, console = []\<rparr>)"
proof -
  have dangling_deep:
    "getSha (mem_git True) dangling_repo ''HEAD'' = Inr ''c2'' \<and>
     getSha (mem_git True) dangling_repo ''main'' = Inr ''c0'' \<and>
     shallow 2 (mem_git True) dangling_repo ''c0'' ''c2'' \<and>
     descends (mem_git True) dangling_repo ''c0'' ''c2'' [''c1''] ''c1'' \<and>
     (getParents (mem_git True) dangling_repo ''c1'' =
        Inl (Fatal ''Error running get parents err'') \<or>
      getMessage (mem_git True) dangling_repo ''c1'' =
        Inl (Fatal ''Error running get parents err''))"
    using dangling_reads dangling_shallow by blast
  note h = conjI[OF stack_paths_found_failing stack_failing_tags]
  note run1 = mutation_status_is_discarded
    [where n = 3 and g = "mem_git False" and dry = False and r = stack_repo
       and paths = stack_paths and ts = "[''PR_BRANCH/old'', ''v1.0'']",
     THEN conjunct2, THEN conjunct2, THEN conjunct2, THEN conjunct2, THEN conjunct2,
     THEN conjunct2, THEN conjunct2, THEN mp, OF h, unfolded stack_failing_world]
  note run2 = mutation_status_is_discarded
    [where n = 3 and g = "mem_git True" and dry = False and r = unborn_repo
       and e = "Fatal ''Error running get sha err''",
     THEN conjunct2, THEN conjunct1, THEN mp, OF unborn_head_unresolved]
  note run3 = mutation_status_is_discarded
    [where n = 3 and g = "mem_git True" and dry = False and r = dangling_repo
       and s = "''c2''" and t = "''c0''" and via = "[''c1'']" and x = "''c1''"
       and e = "Fatal ''Error running get parents err''",
     THEN conjunct2, THEN conjunct2, THEN conjunct2, THEN conjunct2, THEN conjunct2,
     THEN conjunct1, THEN mp, OF dangling_reads]
  note run4 = mutation_status_is_discarded
    [where g = "mem_git True" and dry = False and r = dangling_repo and d = 2
       and s = "''c2''" and t = "''c0''" and via = "[''c1'']" and x = "''c1''"
       and e = "Fatal ''Error running get parents err''",
     THEN conjunct2, THEN conjunct2, THEN conjunct2, THEN conjunct2, THEN conjunct2,
     THEN conjunct2, THEN conjunct1, THEN mp, OF dangling_deep]
  show ?thesis
    by (rule conjI[OF h conjI[OF run1 conjI[OF unborn_head_unresolved
          conjI[OF run2 conjI[OF dangling_reads conjI[OF run3
            conjI[OF dangling_shallow conjI[OF run4 dangling_aborts]]]]]]]])
qed

text \<open>C9 as stated fails in "the failure is logged": with a backend whose push and tag
  deletion fail without writing anything, the terminal shows the two command lines and
  nothing else, and the run ends normally.\<close>

theorem failed_mutation_is_not_logged_counterexample:
  "git_write (mem_git False) [''git'', ''push'', ''--force'', ''origin'', ''c2:refs/heads/feat'']
      stack_repo = ([], False, stack_repo) \<and>
   git_write (mem_git False) [''git'', ''tag'', ''--delete'', ''PR_BRANCH/old''] stack_repo =
      ([], False, stack_repo) \<and>
   main 3 (mem_git False) False stack_repo =
     Some (None,
       \<lparr>repo = stack_repo,
        console = [Echo [''git'', ''push'', ''--force'', ''origin'', ''c2:refs/heads/feat''],
                   Forwarded [],
                   Echo [''git'', ''tag'', ''--delete'', ''PR_BRANCH/old''],
                   Forwarded []]\<rparr>)"
  by code_simp

text \<open>
  C4 (as amended). Every path the enumerator produces is an ancestry path from the source
  to the target that includes the source and excludes the target: it is empty when source
  and target are the same commit; otherwise its first commit is the source commit itself,
  each next commit is a parent of the one before, the last commit has the target among
  its parents, and the target is not on the path. Each entry is the record \<open>makeCommit\<close>
  builds for its identity.
\<close>

theorem paths_start_at_source_and_exclude_target:
  assumes "findCommitPaths n g r branch = Some (Inr paths)" and "p \<in> set paths"
  shows "\<exists>source target.
           getSha g r ''HEAD'' = Inr source \<and> getSha g r branch = Inr target \<and>
           pathFrom g r source target (map commit.sha p) \<and>
           (if source = target then p = [] else p \<noteq> [] \<and> commit.sha (hd p) = source) \<and>
           target \<notin> commit.sha ` set p \<and>
           (p \<noteq> [] \<longrightarrow>
              (\<exists>ps. getParents g r (commit.sha (last p)) = Inr ps \<and> target \<in> set ps)) \<and>
           (\<forall>c \<in> set p. makeCommit g r (commit.sha c) = Inr c)"
proof -
  from assms(1) obtain source where s: "getSha g r ''HEAD'' = Inr source"
    by (cases "getSha g r ''HEAD''") (auto simp: findCommitPaths_def)
  from assms(1) s obtain target where t: "getSha g r branch = Inr target"
    by (cases "getSha g r branch") (auto simp: findCommitPaths_def)
  from assms(1) s t obtain st where
    tr: "traversePaths n g r source target ([], []) = Some (Inr st)" and ps: "paths = snd st"
    by (auto simp: findCommitPaths_def split: option.splits sum.splits)
  from traverse_sound(1)[OF tr, unfolded fst_conv snd_conv] obtain new where
    new: "snd st = [] @ map ((@) []) new" and q: "\<forall>q \<in> set new. commitPath g r source target q"
    by blast
  have "map ((@) []) new = new" by (induction new) simp_all
  then have "paths = new" using new ps by simp
  then have cp: "commitPath g r source target p" using q assms(2) by blast
  then have pf: "pathFrom g r source target (map commit.sha p)"
    and mk: "\<forall>c \<in> set p. makeCommit g r (commit.sha c) = Inr c"
    by (simp_all add: commitPath_def list_all_iff)
  have first: "if source = target then p = [] else p \<noteq> [] \<and> commit.sha (hd p) = source"
    using pf by (cases p) auto
  have excl: "target \<notin> commit.sha ` set p"
    using pathFrom_excludes_target[OF pf] by simp
  have lst: "p \<noteq> [] \<longrightarrow>
              (\<exists>ps. getParents g r (commit.sha (last p)) = Inr ps \<and> target \<in> set ps)"
    using pathFrom_last[OF pf] by (simp add: last_map)
  show ?thesis using s t pf first excl lst mk by (intro exI conjI)
qed

theorem paths_start_at_source_and_exclude_target_witness:
  "findCommitPaths 4 (mem_git True) diamond_repo ''main'' = Some (Inr diamond_paths) \<and>
   [\<lparr>commit.sha = ''t'', message = [], psBranch = ''top'', isMerge = False\<rparr>,
    \<lparr>commit.sha = ''m'', message = [], psBranch = [], isMerge = True\<rparr>,
    \<lparr>commit.sha = ''b'', message = [], psBranch = ''right'', isMerge = False\<rparr>]
   \<in> set diamond_paths \<and>
   (\<exists>source target.
      getSha (mem_git True) diamond_repo ''HEAD'' = Inr source \<and>
      getSha (mem_git True) diamond_repo ''main'' = Inr target \<and>
      pathFrom (mem_git True) diamond_repo source target [''t'', ''m'', ''b''] \<and>
      source = ''t'' \<and> target \<notin> {''t'', ''m'', ''b''})"
proof -
  from paths_start_at_source_and_exclude_target[OF diamond_paths_found diamond_second_path]
  obtain source target where
    "getSha (mem_git True) diamond_repo ''HEAD'' = Inr source"
    "getSha (mem_git True) diamond_repo ''main'' = Inr target"
    "pathFrom (mem_git True) diamond_repo source target [''t'', ''m'', ''b'']"
    "source = ''t''" "target \<notin> {''t'', ''m'', ''b''}"
    by (auto split: if_splits)
  then show ?thesis using diamond_paths_found diamond_second_path by (intro conjI exI)
qed

text \<open>C4 as stated fails: with \<open>HEAD\<close> at \<open>c2\<close>, whose parent \<open>c1\<close> has parent \<open>c0\<close>, the tip
  of \<open>main\<close>, the one path is \<open>[c2, c1]\<close>; the commits strictly between source and
  target are \<open>[c1]\<close> only.\<close>

theorem path_contains_source_counterexample:
  "getSha (mem_git True) stack_repo ''HEAD'' = Inr ''c2'' \<and>
   getSha (mem_git True) stack_repo ''main'' = Inr ''c0'' \<and>
   findCommitPaths 3 (mem_git True) stack_repo ''main'' =
     Some (Inr [[\<lparr>commit.sha = ''c2'', message = [], psBranch = ''feat'', isMerge = False\<rparr>,
                 \<lparr>commit.sha = ''c1'', message = [], psBranch = [], isMerge = False\<rparr>]])"
  by code_simp



end
